theory Spec2Isabelle
  imports Main
begin

section \<open>Types and the flattening of aggregates\<close>

text \<open>
  The Swift types the pass looks at. A tuple type has fields, each with an optional name
  (\<open>Field.hasName()\<close>); a struct type has stored properties, each with a name; anything
  else (builtins, classes, enums, existentials) is a single element. The string of
  \<open>OtherTy\<close> and \<open>StructTy\<close> only tells types apart.
  Element counts are \<open>unsigned\<close> in the source; they are modelled as \<open>nat\<close> (a type
  with $2^{32}$ leaves is out of reach of the compiler).
\<close>

datatype ty =
    TupleTy "(string option \<times> ty) list"
  | StructTy string "(string \<times> ty) list"
  | OtherTy string

text \<open>\<open>getTupleElementCount\<close>: the recursive count of tuple fields; a non-tuple is one
  element. The second function is the \<open>for\<close> loop over the fields.\<close>

fun getTupleElementCount :: "ty \<Rightarrow> nat"
  and getTupleElementCount_fields :: "(string option \<times> ty) list \<Rightarrow> nat"
where
  "getTupleElementCount (TupleTy fs) = getTupleElementCount_fields fs"
| "getTupleElementCount (StructTy n ps) = 1"
| "getTupleElementCount (OtherTy n) = 1"
| "getTupleElementCount_fields [] = 0"
| "getTupleElementCount_fields ((n, t) # fs) =
     getTupleElementCount t + getTupleElementCount_fields fs"

text \<open>\<open>getNumSubElements\<close>: the recursive count through tuple fields and struct stored
  properties.\<close>

fun getNumSubElements :: "ty \<Rightarrow> nat"
  and getNumSubElements_fields :: "(string option \<times> ty) list \<Rightarrow> nat"
  and getNumSubElements_props :: "(string \<times> ty) list \<Rightarrow> nat"
where
  "getNumSubElements (TupleTy fs) = getNumSubElements_fields fs"
| "getNumSubElements (StructTy n ps) = getNumSubElements_props ps"
| "getNumSubElements (OtherTy n) = 1"
| "getNumSubElements_fields [] = 0"
| "getNumSubElements_fields ((n, t) # fs) = getNumSubElements t + getNumSubElements_fields fs"
| "getNumSubElements_props [] = 0"
| "getNumSubElements_props ((n, t) # ps) = getNumSubElements t + getNumSubElements_props ps"

text \<open>\<open>llvm::utostr\<close>: the decimal digits of an unsigned number.\<close>

definition digit_char :: "nat \<Rightarrow> char" where
  "digit_char d = ''0123456789'' ! d"

fun utostr :: "nat \<Rightarrow> string" where
  "utostr n = (if n < 10 then [digit_char n] else utostr (n div 10) @ [digit_char (n mod 10)])"

declare utostr.simps [simp del]

text \<open>
  \<open>getPathStringToElement\<close> pushes the path to tuple element \<open>Element\<close> onto \<open>Result\<close>.
  The result is \<open>None\<close> where the source runs into
  \<open>assert(0 && "Element number is out of range for this type!")\<close>.
  The second function is the loop over the fields, with the running \<open>Element\<close> and
  \<open>FieldNo\<close>.
\<close>

fun getPathStringToElement :: "ty \<Rightarrow> nat \<Rightarrow> string \<Rightarrow> string option"
  and getPathStringToElement_fields ::
    "(string option \<times> ty) list \<Rightarrow> nat \<Rightarrow> nat \<Rightarrow> string \<Rightarrow> string option"
where
  "getPathStringToElement (TupleTy fs) Element Result =
     getPathStringToElement_fields fs Element 0 Result"
| "getPathStringToElement (StructTy n ps) Element Result = Some Result"
| "getPathStringToElement (OtherTy n) Element Result = Some Result"
| "getPathStringToElement_fields [] Element FieldNo Result = None"
| "getPathStringToElement_fields ((n, t) # fs) Element FieldNo Result =
     (let ElementsForField = getTupleElementCount t in
      if Element < ElementsForField then
        getPathStringToElement t Element
          (Result @ ''.'' @ (case n of Some name \<Rightarrow> name | None \<Rightarrow> utostr FieldNo))
      else getPathStringToElement_fields fs (Element - ElementsForField) (FieldNo + 1) Result)"

subsection \<open>The leaf paths of a type, as the specification words them\<close>

text \<open>
  The depth-first, left-to-right enumeration of the leaf field paths of a type,
  descending through tuple fields and struct stored properties, with \<open>.name\<close> or
  \<open>.ordinal\<close> per step. This follows the specification, not the source.
\<close>

fun spec_leaf_paths :: "ty \<Rightarrow> string list"
  and spec_leaf_paths_fields :: "(string option \<times> ty) list \<Rightarrow> nat \<Rightarrow> string list"
  and spec_leaf_paths_props :: "(string \<times> ty) list \<Rightarrow> string list"
where
  "spec_leaf_paths (TupleTy fs) = spec_leaf_paths_fields fs 0"
| "spec_leaf_paths (StructTy n ps) = spec_leaf_paths_props ps"
| "spec_leaf_paths (OtherTy n) = [[]]"
| "spec_leaf_paths_fields [] k = []"
| "spec_leaf_paths_fields ((n, t) # fs) k =
     map (\<lambda>p. ''.'' @ (case n of Some name \<Rightarrow> name | None \<Rightarrow> utostr k) @ p) (spec_leaf_paths t)
     @ spec_leaf_paths_fields fs (k + 1)"
| "spec_leaf_paths_props [] = []"
| "spec_leaf_paths_props ((n, t) # ps) =
     map (\<lambda>p. ''.'' @ n @ p) (spec_leaf_paths t) @ spec_leaf_paths_props ps"

text \<open>The same enumeration descending through tuple fields only: a struct is a leaf.\<close>

fun tuple_leaf_paths :: "ty \<Rightarrow> string list"
  and tuple_leaf_paths_fields :: "(string option \<times> ty) list \<Rightarrow> nat \<Rightarrow> string list"
where
  "tuple_leaf_paths (TupleTy fs) = tuple_leaf_paths_fields fs 0"
| "tuple_leaf_paths (StructTy n ps) = [[]]"
| "tuple_leaf_paths (OtherTy n) = [[]]"
| "tuple_leaf_paths_fields [] k = []"
| "tuple_leaf_paths_fields ((n, t) # fs) k =
     map (\<lambda>p. ''.'' @ (case n of Some name \<Rightarrow> name | None \<Rightarrow> utostr k) @ p) (tuple_leaf_paths t)
     @ tuple_leaf_paths_fields fs (k + 1)"

section \<open>The intermediate representation\<close>

text \<open>
  A \<open>SILValue\<close> is a result of a definition: the identity of the defining instruction
  (or of a block argument), the result number, and the Swift type of the value (for an
  address, the type of the memory it points to).
\<close>

datatype SILValue = SILValue (vdef: nat) (vres: nat) (vty: ty)

datatype ParameterConvention = Indirect_Result | Indirect_InOut | Other_Convention

text \<open>
  The instructions the pass tells apart, each with its operands in operand order.
  \<open>StoreWeak\<close> and \<open>CopyAddr\<close> carry their flags (\<open>isInitializationOfDest\<close>; for
  \<open>CopyAddr\<close> first \<open>isTakeOfSrc\<close>). \<open>Apply\<close> has the callee, the arguments and the
  parameter conventions of the callee's type. \<open>OtherInst\<close> is any other instruction.
\<close>

datatype Inst =
    AllocBox
  | AllocStack
  | MarkUninitialized SILValue
  | TupleElementAddr SILValue nat
  | StructElementAddr SILValue string
  | EnumDataAddr SILValue
  | Load SILValue
  | LoadWeak SILValue
  | Store SILValue SILValue
  | Assign SILValue SILValue
  | StoreWeak SILValue SILValue bool
  | CopyAddr SILValue SILValue bool bool
  | InitializeVar SILValue
  | Apply SILValue "SILValue list" "ParameterConvention list"
  | InitExistential SILValue
  | InjectEnumAddr SILValue
  | UpcastExistential SILValue SILValue
  | ProjectExistential SILValue
  | ProtocolMethod SILValue
  | StrongRelease SILValue
  | DeallocStack SILValue
  | MarkFunctionEscape "SILValue list"
  | TupleInst "SILValue list"
  | StructInst "SILValue list"
  | TupleExtract SILValue nat
  | StructExtract SILValue string
  | CopyValue SILValue
  | StrongRetain SILValue
  | UnownedRetain SILValue
  | UnownedRelease SILValue
  | DestroyValue SILValue
  | OtherInst string "SILValue list"

text \<open>A location: the source position, and the name of the declaration the location
  stands for when it is one (\<open>getAsASTNode<Decl>()\<close> being a \<open>ValueDecl\<close>).\<close>

record SILLocation =
  source_loc :: nat
  decl_name :: "string option"

text \<open>
  An instruction: its identity (the \<open>SILInstruction*\<close> of the source), what it is, the
  Swift type of its result (for an allocation the element type, for an address
  projection the type of the projected memory), and its location.
\<close>

record SILInstruction =
  inst_id :: nat
  inst :: Inst
  inst_ty :: ty
  loc :: SILLocation

text \<open>A block: its instructions in order, and its predecessor blocks in the order of
  \<open>pred_begin() .. pred_end()\<close>. A block is known by its index in the function.\<close>

record SILBasicBlock =
  insts :: "SILInstruction list"
  preds :: "nat list"

text \<open>A function: its blocks, and the identity the next created instruction gets.\<close>

record SILFunction =
  blocks :: "SILBasicBlock list"
  next_inst_id :: nat

definition pred_blocks :: "SILFunction \<Rightarrow> nat \<Rightarrow> nat list" where
  "pred_blocks F BB = (if BB < length (blocks F) then preds (blocks F ! BB) else [])"

definition block_insts :: "SILFunction \<Rightarrow> nat \<Rightarrow> SILInstruction list" where
  "block_insts F BB = (if BB < length (blocks F) then insts (blocks F ! BB) else [])"

text \<open>Where an instruction stands: \<open>getParent()\<close> and the position in the block.
  \<open>None\<close> for an identity that is no instruction of the function.\<close>

fun inst_pos :: "SILInstruction list \<Rightarrow> nat \<Rightarrow> nat option" where
  "inst_pos [] i = None"
| "inst_pos (x # xs) i = (if inst_id x = i then Some 0 else map_option Suc (inst_pos xs i))"

fun find_inst_from :: "SILBasicBlock list \<Rightarrow> nat \<Rightarrow> nat \<Rightarrow> (nat \<times> nat) option" where
  "find_inst_from [] b i = None"
| "find_inst_from (B # Bs) b i =
     (case inst_pos (insts B) i of
        Some p \<Rightarrow> Some (b, p)
      | None \<Rightarrow> find_inst_from Bs (Suc b) i)"

definition find_inst :: "SILFunction \<Rightarrow> nat \<Rightarrow> (nat \<times> nat) option" where
  "find_inst F i = find_inst_from (blocks F) 0 i"

definition get_inst :: "SILFunction \<Rightarrow> nat \<Rightarrow> SILInstruction option" where
  "get_inst F i = map_option (\<lambda>(BB, p). block_insts F BB ! p) (find_inst F i)"

section \<open>Per-element promotion: the state\<close>

datatype UseKind = Load_Use | Store_Use | PartialStore_Use | InOutUse | Escape_Use | Release_Use

text \<open>\<open>ElementUses\<close>: the uses of one element. An entry whose instruction is \<open>None\<close> is
  one the source has set to \<open>nullptr\<close>.\<close>

type_synonym ElementUses = "(nat option \<times> UseKind) list"

datatype EscapeKind = Escape_Unknown | Escape_Yes | Escape_No

datatype LiveOutAvailability = IsNotLiveOut | IsLiveOut | IsComputingLiveOut | IsUnknown

record LiveOutBlockState =
  EscapeInfo :: EscapeKind
  HasNonLoadUse :: bool
  Availability :: LiveOutAvailability

text \<open>\<open>PerBlockInfo\<close> is a map that creates a default state on first access: a total
  function that starts as the default state everywhere.\<close>

type_synonym block_info = "nat \<Rightarrow> LiveOutBlockState"

definition default_LiveOutBlockState :: LiveOutBlockState where
  "default_LiveOutBlockState =
     \<lparr>EscapeInfo = Escape_Unknown, HasNonLoadUse = False, Availability = IsUnknown\<rparr>"

definition setAvailability :: "block_info \<Rightarrow> nat \<Rightarrow> LiveOutAvailability \<Rightarrow> block_info" where
  "setAvailability PBI BB a = PBI(BB := (PBI BB)\<lparr>Availability := a\<rparr>)"

datatype Diag =
    variable_used_before_initialized
  | variable_inout_before_initialized
  | variable_escape_before_initialized
  | variable_destroyed_before_initialized
  | variable_initialized_on_some_paths
  | struct_not_fully_initialized
  | global_variable_function_use_uninit
  | variable_defined_here

text \<open>One call of \<open>diagnose\<close>: the source position, the message and its argument.\<close>

datatype Diagnostic = Diagnostic nat Diag "string option"

text \<open>What stops a run that the source does not define: an instruction pointer that is
  no instruction of the function, a failed \<open>assert\<close>, an index outside a vector; and
  a loop that never ends.\<close>

datatype failure = Dangling_Instruction | Assertion_Failed | Index_Out_Of_Range | Never_Returns

datatype DIKind = DI_Yes | DI_No | DI_Partial

record ElementPromotion =
  Fn :: SILFunction
  TheMemory :: nat
  ElementNumber :: nat
  NumMemorySubElements :: nat
  Uses :: ElementUses
  PerBlockInfo :: block_info
  NonLoadUses :: "nat set"
  HasAnyEscape :: bool
  HadError :: bool
  Diags :: "Diagnostic list"

section \<open>Live-out computation\<close>

text \<open>
  \<open>isLiveOut\<close>, with the map of block states passed in and returned.
  \<open>isLiveOut_preds\<close> is the loop over the predecessors: it stops at the first
  predecessor that is not live out.
\<close>

function isLiveOut :: "SILFunction \<Rightarrow> block_info \<Rightarrow> nat \<Rightarrow> block_info \<times> bool"
  and isLiveOut_preds :: "SILFunction \<Rightarrow> block_info \<Rightarrow> nat list \<Rightarrow> block_info \<times> bool"
where
  "isLiveOut F PBI BB =
     (case Availability (PBI BB) of
        IsNotLiveOut \<Rightarrow> (PBI, False)
      | IsLiveOut \<Rightarrow> (PBI, True)
      | IsComputingLiveOut \<Rightarrow> (PBI, True)
      | IsUnknown \<Rightarrow>
          (let r = isLiveOut_preds F (setAvailability PBI BB IsComputingLiveOut)
                     (pred_blocks F BB) in
           if snd r then (setAvailability (fst r) BB IsLiveOut, True)
           else (setAvailability (fst r) BB IsNotLiveOut, False)))"
| "isLiveOut_preds F PBI [] = (PBI, True)"
| "isLiveOut_preds F PBI (P # Ps) =
     (let r = isLiveOut F PBI P in
      if snd r then isLiveOut_preds F (fst r) Ps else (fst r, False))"
  by pat_completeness auto

text \<open>Termination: every call that recurses turns an unknown block of the function
  into a computing one, and no call makes a block unknown again.\<close>

definition unknown_blocks :: "SILFunction \<Rightarrow> block_info \<Rightarrow> nat set" where
  "unknown_blocks F PBI = {b. b < length (blocks F) \<and> Availability (PBI b) = IsUnknown}"

lemma isLiveOut_keeps_known:
  "isLiveOut_isLiveOut_preds_dom (Inl (F, PBI, BB)) \<Longrightarrow>
     Availability (PBI b) \<noteq> IsUnknown \<Longrightarrow>
     Availability (fst (isLiveOut F PBI BB) b) \<noteq> IsUnknown"
  "isLiveOut_isLiveOut_preds_dom (Inr (F, PBI, Ps)) \<Longrightarrow>
     Availability (PBI b) \<noteq> IsUnknown \<Longrightarrow>
     Availability (fst (isLiveOut_preds F PBI Ps) b) \<noteq> IsUnknown"
proof (induction F PBI BB and F PBI Ps rule: isLiveOut_isLiveOut_preds.pinduct)
  case (1 F PBI BB)
  show ?case
  proof (cases "Availability (PBI BB)")
    case IsUnknown
    let ?r = "isLiveOut_preds F (setAvailability PBI BB IsComputingLiveOut) (pred_blocks F BB)"
    have "Availability (setAvailability PBI BB IsComputingLiveOut b) \<noteq> IsUnknown"
      using "1.prems" by (simp add: setAvailability_def)
    then have "Availability (fst ?r b) \<noteq> IsUnknown"
      using "1.IH" [OF IsUnknown] by simp
    then show ?thesis
      using IsUnknown "1.hyps" by (simp add: isLiveOut.psimps Let_def setAvailability_def)
  qed (use 1 in \<open>simp_all add: isLiveOut.psimps\<close>)
next
  case (2 F PBI)
  then show ?case by (simp add: isLiveOut_preds.psimps)
next
  case (3 F PBI P Ps)
  then show ?case by (simp add: isLiveOut_preds.psimps Let_def)
qed

termination isLiveOut
proof (relation "inv_image (less_than <*lex*> less_than)
    (\<lambda>x. case x of
       Inl (F, PBI, BB) \<Rightarrow> (card (unknown_blocks F PBI), Suc 0)
     | Inr (F, PBI, Ps) \<Rightarrow> (card (unknown_blocks F PBI), if Ps = [] then 0 else 2 + length Ps))",
    goal_cases)
  case 1
  show ?case by (intro wf_inv_image wf_lex_prod wf_less_than)
next
  case (2 F PBI BB)
  show ?case
  proof (cases "BB < length (blocks F)")
    case True
    have fin: "finite (unknown_blocks F PBI)" by (simp add: unknown_blocks_def)
    have "unknown_blocks F (setAvailability PBI BB IsComputingLiveOut) = unknown_blocks F PBI - {BB}"
      by (auto simp: unknown_blocks_def setAvailability_def)
    moreover have "BB \<in> unknown_blocks F PBI" using True 2 by (simp add: unknown_blocks_def)
    ultimately have "card (unknown_blocks F (setAvailability PBI BB IsComputingLiveOut))
        < card (unknown_blocks F PBI)"
      using fin card_Diff1_less [of "unknown_blocks F PBI" BB] by simp
    then show ?thesis by simp
  next
    case False
    then have "unknown_blocks F (setAvailability PBI BB IsComputingLiveOut) = unknown_blocks F PBI"
      by (auto simp: unknown_blocks_def setAvailability_def)
    then show ?thesis using False by (simp add: pred_blocks_def)
  qed
next
  case (3 F PBI P Ps)
  show ?case by simp
next
  case (4 F PBI P Ps r)
  have "unknown_blocks F (fst (isLiveOut F PBI P)) \<subseteq> unknown_blocks F PBI"
    using isLiveOut_keeps_known(1) [OF 4(3)] by (auto simp: unknown_blocks_def)
  then have "card (unknown_blocks F (fst (isLiveOut F PBI P))) \<le> card (unknown_blocks F PBI)"
    by (intro card_mono) (simp_all add: unknown_blocks_def)
  then show ?case using 4 by auto
qed

declare isLiveOut.simps [simp del] isLiveOut_preds.simps [simp del]

section \<open>The definite-initialization check\<close>

text \<open>The backward scan of \<open>checkDefinitelyInit\<close>: given the instructions before the
  use, nearest first, the first one that is in \<open>NonLoadUses\<close>.\<close>

fun scan_NonLoadUses :: "nat set \<Rightarrow> SILInstruction list \<Rightarrow> nat option" where
  "scan_NonLoadUses NLU [] = None"
| "scan_NonLoadUses NLU (TheInst # earlier) =
     (if inst_id TheInst \<notin> NLU then scan_NonLoadUses NLU earlier else Some (inst_id TheInst))"

text \<open>\<open>checkDefinitelyInit\<close>. It fails where \<open>Inst\<close> is no instruction of the function
  (the source would follow a dangling pointer).\<close>

definition checkDefinitelyInit ::
  "ElementPromotion \<Rightarrow> nat \<Rightarrow> failure + (ElementPromotion \<times> DIKind)" where
  "checkDefinitelyInit EP Inst =
     (case find_inst (Fn EP) Inst of
        None \<Rightarrow> Inl Dangling_Instruction
      | Some (InstBB, pos) \<Rightarrow>
          (case (if HasNonLoadUse (PerBlockInfo EP InstBB)
                 then scan_NonLoadUses (NonLoadUses EP) (rev (take pos (block_insts (Fn EP) InstBB)))
                 else None) of
             Some TheInst \<Rightarrow> Inr (EP, if TheInst = TheMemory EP then DI_No else DI_Yes)
           | None \<Rightarrow>
               (let r = isLiveOut_preds (Fn EP) (PerBlockInfo EP) (pred_blocks (Fn EP) InstBB) in
                Inr (EP\<lparr>PerBlockInfo := fst r\<rparr>, if snd r then DI_Yes else DI_No))))"

subsection \<open>Facts about the lookup of instructions\<close>

lemma inst_pos_Some:
  "inst_pos xs i = Some p \<Longrightarrow> p < length xs \<and> inst_id (xs ! p) = i"
  by (induction xs arbitrary: p) (auto split: if_splits)

lemma find_inst_from_Some:
  "find_inst_from Bs b i = Some (BB, p) \<Longrightarrow>
     b \<le> BB \<and> BB - b < length Bs \<and> p < length (insts (Bs ! (BB - b)))
     \<and> inst_id (insts (Bs ! (BB - b)) ! p) = i"
proof (induction Bs arbitrary: b)
  case Nil
  then show ?case by simp
next
  case (Cons B Bs)
  show ?case
  proof (cases "inst_pos (insts B) i")
    case None
    then have "find_inst_from Bs (Suc b) i = Some (BB, p)" using Cons.prems by simp
    from Cons.IH [OF this]
    have a: "Suc b \<le> BB" "BB - Suc b < length Bs" "p < length (insts (Bs ! (BB - Suc b)))"
      "inst_id (insts (Bs ! (BB - Suc b)) ! p) = i"
      by simp_all
    from a(1) have "BB - b = Suc (BB - Suc b)" by simp
    then have "(B # Bs) ! (BB - b) = Bs ! (BB - Suc b)" by simp
    with a show ?thesis by simp
  next
    case (Some q)
    then show ?thesis using Cons.prems inst_pos_Some [OF Some] by auto
  qed
qed

lemma find_inst_Some:
  "find_inst F i = Some (BB, p) \<Longrightarrow>
     BB < length (blocks F) \<and> p < length (block_insts F BB) \<and> inst_id (block_insts F BB ! p) = i"
  using find_inst_from_Some [of "blocks F" 0 i BB p]
  by (simp add: find_inst_def block_insts_def)

section \<open>The constructor of the per-element state\<close>

text \<open>The loop of the constructor over the uses: it fills \<open>NonLoadUses\<close>, the block
  states and \<open>HasAnyEscape\<close>. \<open>assert(Use.first)\<close> fails on an entry without instruction.\<close>

fun collect_use_info ::
  "SILFunction \<Rightarrow> ElementUses \<Rightarrow> block_info \<times> nat set \<times> bool \<Rightarrow>
     failure + (block_info \<times> nat set \<times> bool)"
where
  "collect_use_info F [] st = Inr st"
| "collect_use_info F ((None, k) # us) st = Inl Assertion_Failed"
| "collect_use_info F ((Some i, k) # us) (PBI, NLU, esc) =
     (if k = Load_Use then collect_use_info F us (PBI, NLU, esc)
      else
        (case find_inst F i of
           None \<Rightarrow> Inl Dangling_Instruction
         | Some (BB, p) \<Rightarrow>
             collect_use_info F us
               (PBI(BB := (PBI BB)\<lparr>
                    EscapeInfo := (if k = Escape_Use then Escape_Yes else EscapeInfo (PBI BB)),
                    HasNonLoadUse := True,
                    Availability := IsLiveOut\<rparr>),
                insert i NLU,
                esc \<or> k = Escape_Use)))"

text \<open>The constructor. \<open>D\<close> is what the diagnostic engine holds so far.\<close>

definition new_ElementPromotion ::
  "SILFunction \<Rightarrow> Diagnostic list \<Rightarrow> nat \<Rightarrow> nat \<Rightarrow> ElementUses \<Rightarrow> failure + ElementPromotion"
where
  "new_ElementPromotion F D Memory EltNo U =
     (case get_inst F Memory of
        None \<Rightarrow> Inl Dangling_Instruction
      | Some M \<Rightarrow>
          (case collect_use_info F U (\<lambda>b. default_LiveOutBlockState, {}, False) of
             Inl e \<Rightarrow> Inl e
           | Inr (PBI, NLU, esc) \<Rightarrow>
               (case find_inst F Memory of
                  None \<Rightarrow> Inl Dangling_Instruction
                | Some (BB, p) \<Rightarrow>
                    (let PBI1 = PBI(BB := (PBI BB)\<lparr>HasNonLoadUse := True\<rparr>);
                         PBI2 = (if Availability (PBI1 BB) = IsUnknown
                                 then setAvailability PBI1 BB IsNotLiveOut else PBI1)
                     in Inr \<lparr>Fn = F, TheMemory = Memory, ElementNumber = EltNo,
                              NumMemorySubElements = getNumSubElements (inst_ty M),
                              Uses = U, PerBlockInfo = PBI2,
                              NonLoadUses = insert Memory NLU,
                              HasAnyEscape = esc, HadError = False, Diags = D\<rparr>))))"

definition getParent :: "SILFunction \<Rightarrow> nat \<Rightarrow> nat option" where
  "getParent F i = map_option fst (find_inst F i)"

section \<open>The wording of the specification\<close>

text \<open>A block contains a non-load use of the element.\<close>

definition spec_block_has_non_load_use :: "SILFunction \<Rightarrow> ElementUses \<Rightarrow> nat \<Rightarrow> bool" where
  "spec_block_has_non_load_use F U b =
     (\<exists>i k. (Some i, k) \<in> set U \<and> k \<noteq> Load_Use \<and> getParent F i = Some b)"

text \<open>Every predecessor is live out: each one, asked in order with the block states
  the earlier answers left, answers true.\<close>

definition spec_every_pred_live_out :: "SILFunction \<Rightarrow> block_info \<Rightarrow> nat list \<Rightarrow> bool" where
  "spec_every_pred_live_out F PBI Ps =
     (\<forall>k<length Ps. snd (isLiveOut F (fst (isLiveOut_preds F PBI (take k Ps))) (Ps ! k)))"

text \<open>Instruction \<open>j\<close> is the first instruction in \<open>NonLoadUses\<close> found scanning
  backward from position \<open>pos\<close>.\<close>

definition spec_nearest_NonLoadUse :: "nat set \<Rightarrow> SILInstruction list \<Rightarrow> nat \<Rightarrow> nat \<Rightarrow> bool" where
  "spec_nearest_NonLoadUse NLU is pos j =
     (j < pos \<and> inst_id (is ! j) \<in> NLU \<and> (\<forall>k. j < k \<and> k < pos \<longrightarrow> inst_id (is ! k) \<notin> NLU))"

section \<open>Operations on the intermediate representation\<close>

text \<open>The operands of an instruction, in operand order (for \<open>Apply\<close> the callee is
  operand 0), and the same instruction with a function applied to every operand.\<close>

fun operands_of :: "Inst \<Rightarrow> SILValue list" where
  "operands_of AllocBox = []"
| "operands_of AllocStack = []"
| "operands_of (MarkUninitialized a) = [a]"
| "operands_of (TupleElementAddr a n) = [a]"
| "operands_of (StructElementAddr a f) = [a]"
| "operands_of (EnumDataAddr a) = [a]"
| "operands_of (Load a) = [a]"
| "operands_of (LoadWeak a) = [a]"
| "operands_of (Store v a) = [v, a]"
| "operands_of (Assign v a) = [v, a]"
| "operands_of (StoreWeak v a i) = [v, a]"
| "operands_of (CopyAddr s d t i) = [s, d]"
| "operands_of (InitializeVar a) = [a]"
| "operands_of (Apply c as ps) = c # as"
| "operands_of (InitExistential a) = [a]"
| "operands_of (InjectEnumAddr a) = [a]"
| "operands_of (UpcastExistential s d) = [s, d]"
| "operands_of (ProjectExistential a) = [a]"
| "operands_of (ProtocolMethod a) = [a]"
| "operands_of (StrongRelease a) = [a]"
| "operands_of (DeallocStack a) = [a]"
| "operands_of (MarkFunctionEscape as) = as"
| "operands_of (TupleInst vs) = vs"
| "operands_of (StructInst vs) = vs"
| "operands_of (TupleExtract v n) = [v]"
| "operands_of (StructExtract v f) = [v]"
| "operands_of (CopyValue v) = [v]"
| "operands_of (StrongRetain v) = [v]"
| "operands_of (UnownedRetain v) = [v]"
| "operands_of (UnownedRelease v) = [v]"
| "operands_of (DestroyValue v) = [v]"
| "operands_of (OtherInst n vs) = vs"

fun map_operands :: "(SILValue \<Rightarrow> SILValue) \<Rightarrow> Inst \<Rightarrow> Inst" where
  "map_operands g AllocBox = AllocBox"
| "map_operands g AllocStack = AllocStack"
| "map_operands g (MarkUninitialized a) = MarkUninitialized (g a)"
| "map_operands g (TupleElementAddr a n) = TupleElementAddr (g a) n"
| "map_operands g (StructElementAddr a f) = StructElementAddr (g a) f"
| "map_operands g (EnumDataAddr a) = EnumDataAddr (g a)"
| "map_operands g (Load a) = Load (g a)"
| "map_operands g (LoadWeak a) = LoadWeak (g a)"
| "map_operands g (Store v a) = Store (g v) (g a)"
| "map_operands g (Assign v a) = Assign (g v) (g a)"
| "map_operands g (StoreWeak v a i) = StoreWeak (g v) (g a) i"
| "map_operands g (CopyAddr s d t i) = CopyAddr (g s) (g d) t i"
| "map_operands g (InitializeVar a) = InitializeVar (g a)"
| "map_operands g (Apply c as ps) = Apply (g c) (map g as) ps"
| "map_operands g (InitExistential a) = InitExistential (g a)"
| "map_operands g (InjectEnumAddr a) = InjectEnumAddr (g a)"
| "map_operands g (UpcastExistential s d) = UpcastExistential (g s) (g d)"
| "map_operands g (ProjectExistential a) = ProjectExistential (g a)"
| "map_operands g (ProtocolMethod a) = ProtocolMethod (g a)"
| "map_operands g (StrongRelease a) = StrongRelease (g a)"
| "map_operands g (DeallocStack a) = DeallocStack (g a)"
| "map_operands g (MarkFunctionEscape as) = MarkFunctionEscape (map g as)"
| "map_operands g (TupleInst vs) = TupleInst (map g vs)"
| "map_operands g (StructInst vs) = StructInst (map g vs)"
| "map_operands g (TupleExtract v n) = TupleExtract (g v) n"
| "map_operands g (StructExtract v f) = StructExtract (g v) f"
| "map_operands g (CopyValue v) = CopyValue (g v)"
| "map_operands g (StrongRetain v) = StrongRetain (g v)"
| "map_operands g (UnownedRetain v) = UnownedRetain (g v)"
| "map_operands g (UnownedRelease v) = UnownedRelease (g v)"
| "map_operands g (DestroyValue v) = DestroyValue (g v)"
| "map_operands g (OtherInst n vs) = OtherInst n (map g vs)"

text \<open>Two values are the same value when they are the same result of the same
  definition.\<close>

definition same_value :: "SILValue \<Rightarrow> SILValue \<Rightarrow> bool" where
  "same_value a b = (vdef a = vdef b \<and> vres a = vres b)"

text \<open>
  Modelled from the spec: the use list of a value (\<open>SILValue::getUses\<close> is not in the
  source file). The specification orders the uses by the traversal of the function:
  blocks in order, instructions in order, operands in order. A use is the using
  instruction and the operand number.
\<close>

fun operand_numbers :: "SILValue \<Rightarrow> SILValue list \<Rightarrow> nat \<Rightarrow> nat list" where
  "operand_numbers v [] k = []"
| "operand_numbers v (x # xs) k =
     (if same_value x v then k # operand_numbers v xs (Suc k) else operand_numbers v xs (Suc k))"

definition inst_uses :: "SILValue \<Rightarrow> SILInstruction \<Rightarrow> (nat \<times> nat) list" where
  "inst_uses v I = map (\<lambda>k. (inst_id I, k)) (operand_numbers v (operands_of (inst I)) 0)"

definition getUses :: "SILFunction \<Rightarrow> SILValue \<Rightarrow> (nat \<times> nat) list" where
  "getUses F v = concat (map (\<lambda>B. concat (map (inst_uses v) (insts B))) (blocks F))"

definition use_empty :: "SILFunction \<Rightarrow> SILValue \<Rightarrow> bool" where
  "use_empty F v = (getUses F v = [])"

text \<open>\<open>replaceAllUsesWith\<close>: every operand that is the old value becomes the new one.\<close>

definition replace_value :: "SILValue \<Rightarrow> SILValue \<Rightarrow> SILValue \<Rightarrow> SILValue" where
  "replace_value old new x = (if same_value x old then new else x)"

definition map_insts :: "(SILInstruction \<Rightarrow> SILInstruction) \<Rightarrow> SILFunction \<Rightarrow> SILFunction" where
  "map_insts g F = F\<lparr>blocks := map (\<lambda>B. B\<lparr>insts := map g (insts B)\<rparr>) (blocks F)\<rparr>"

definition replaceAllUsesWith :: "SILFunction \<Rightarrow> SILValue \<Rightarrow> SILValue \<Rightarrow> SILFunction" where
  "replaceAllUsesWith F old new =
     map_insts (\<lambda>I. I\<lparr>inst := map_operands (replace_value old new) (inst I)\<rparr>) F"

text \<open>Changing the instructions of one block.\<close>

definition update_block_insts ::
  "SILFunction \<Rightarrow> nat \<Rightarrow> (SILInstruction list \<Rightarrow> SILInstruction list) \<Rightarrow> SILFunction" where
  "update_block_insts F BB g =
     (if BB < length (blocks F)
      then F\<lparr>blocks := (blocks F)[BB := (blocks F ! BB)\<lparr>insts := g (insts (blocks F ! BB))\<rparr>]\<rparr>
      else F)"

definition insert_at :: "SILFunction \<Rightarrow> nat \<Rightarrow> nat \<Rightarrow> SILInstruction \<Rightarrow> SILFunction" where
  "insert_at F BB p I = update_block_insts F BB (\<lambda>is. take p is @ I # drop p is)"

definition erase_at :: "SILFunction \<Rightarrow> nat \<Rightarrow> nat \<Rightarrow> SILFunction" where
  "erase_at F BB p = update_block_insts F BB (\<lambda>is. take p is @ drop (Suc p) is)"

definition update_at ::
  "SILFunction \<Rightarrow> nat \<Rightarrow> nat \<Rightarrow> (SILInstruction \<Rightarrow> SILInstruction) \<Rightarrow> SILFunction" where
  "update_at F BB p g =
     update_block_insts F BB (\<lambda>is. if p < length is then is[p := g (is ! p)] else is)"

text \<open>\<open>eraseFromParent\<close> of the instruction with a given identity; nothing happens for
  an identity that is no instruction of the function.\<close>

definition eraseFromParent :: "SILFunction \<Rightarrow> nat \<Rightarrow> SILFunction" where
  "eraseFromParent F i = (case find_inst F i of None \<Rightarrow> F | Some (BB, p) \<Rightarrow> erase_at F BB p)"

text \<open>
  A \<open>SILBuilder\<close>: the function it works on, its insertion point (a block and a position
  in it: what is created goes before the instruction at that position), and the
  instructions it has inserted (\<open>InsertedInsts\<close>), in order.
\<close>

record SILBuilder =
  BFn :: SILFunction
  InsertBB :: nat
  InsertPt :: nat
  InsertedInsts :: "SILInstruction list"

text \<open>Creating an instruction: it gets the next identity, is put at the insertion point,
  and the insertion point stays behind it. The result is the builder and the identity.\<close>

definition createInst :: "SILBuilder \<Rightarrow> SILLocation \<Rightarrow> Inst \<Rightarrow> ty \<Rightarrow> SILBuilder \<times> nat" where
  "createInst B l i t =
     (let n = next_inst_id (BFn B);
          I = \<lparr>inst_id = n, inst = i, inst_ty = t, loc = l\<rparr>
      in (B\<lparr>BFn := (insert_at (BFn B) (InsertBB B) (InsertPt B) I)\<lparr>next_inst_id := Suc n\<rparr>,
            InsertPt := Suc (InsertPt B),
            InsertedInsts := InsertedInsts B @ [I]\<rparr>, n))"

text \<open>The type of the result of an instruction that has no result.\<close>

definition no_result_ty :: ty where
  "no_result_ty = TupleTy []"

section \<open>Type lowering and the lowering of assign\<close>

text \<open>
  Modelled from the spec: the type-lowering service (\<open>TypeLowering\<close> is not in the source
  file). For a type it tells whether the type is trivial, and \<open>emitDestroyValue\<close> emits
  instructions that destroy a value. The instructions type lowering emits besides loads
  and stores are the ones \<open>explodeCopyAddr\<close> lists; the service is modelled as the list of
  those it emits for the type, each applied to the value.
\<close>

datatype LifetimeOp =
    Op_CopyValue | Op_StrongRetain | Op_StrongRelease
  | Op_UnownedRetain | Op_UnownedRelease | Op_DestroyValue

record TypeLowering =
  isTrivial :: bool
  destroy_ops :: "LifetimeOp list"

fun lifetime_inst :: "LifetimeOp \<Rightarrow> SILValue \<Rightarrow> Inst" where
  "lifetime_inst Op_CopyValue v = CopyValue v"
| "lifetime_inst Op_StrongRetain v = StrongRetain v"
| "lifetime_inst Op_StrongRelease v = StrongRelease v"
| "lifetime_inst Op_UnownedRetain v = UnownedRetain v"
| "lifetime_inst Op_UnownedRelease v = UnownedRelease v"
| "lifetime_inst Op_DestroyValue v = DestroyValue v"

fun emit_lifetime_ops :: "SILBuilder \<Rightarrow> SILLocation \<Rightarrow> LifetimeOp list \<Rightarrow> SILValue \<Rightarrow> SILBuilder" where
  "emit_lifetime_ops B l [] v = B"
| "emit_lifetime_ops B l (op # ops) v =
     emit_lifetime_ops (fst (createInst B l (lifetime_inst op v) no_result_ty)) l ops v"

definition emitDestroyValue :: "TypeLowering \<Rightarrow> SILBuilder \<Rightarrow> SILLocation \<Rightarrow> SILValue \<Rightarrow> SILBuilder" where
  "emitDestroyValue TL B l v = emit_lifetime_ops B l (destroy_ops TL) v"

text \<open>
  \<open>LowerAssignInstruction\<close>, for the assign that stands at position \<open>p\<close> of block \<open>BB\<close>.
  Both callers build the builder right before the call, as \<open>SILBuilder B(Inst)\<close>: its
  insertion point is the assign. So after the instructions are created, the assign is
  the instruction at the insertion point, and that one is erased. The result is the
  function and the inserted instructions. Type lowering as modelled here never splits a
  block, so the insertion block of the builder stays \<open>BB\<close>.
\<close>

definition LowerAssignInstruction_at ::
  "(ty \<Rightarrow> TypeLowering) \<Rightarrow> SILFunction \<Rightarrow> nat \<Rightarrow> nat \<Rightarrow> bool \<Rightarrow>
     failure + (SILFunction \<times> SILInstruction list)"
where
  "LowerAssignInstruction_at getTypeLowering F BB p isInitialization =
     (let AI = block_insts F BB ! p;
          B = \<lparr>BFn = F, InsertBB = BB, InsertPt = p, InsertedInsts = []\<rparr>
      in case inst AI of
           Assign Src Dest \<Rightarrow>
             (let destTL = getTypeLowering (vty Dest);
                  B' = (if isInitialization \<or> isTrivial destTL
                        then fst (createInst B (loc AI) (Store Src Dest) no_result_ty)
                        else
                          (let (B1, IncomingVal) = createInst B (loc AI) (Load Dest) (vty Dest);
                               B2 = fst (createInst B1 (loc AI) (Store Src Dest) no_result_ty)
                           in emitDestroyValue destTL B2 (loc AI)
                                (SILValue IncomingVal 0 (vty Dest))))
              in Inr (erase_at (BFn B') (InsertBB B') (InsertPt B'), InsertedInsts B'))
         | _ \<Rightarrow> Inl Assertion_Failed)"

text \<open>The same for an assign that is known by its identity.\<close>

definition LowerAssignInstruction ::
  "(ty \<Rightarrow> TypeLowering) \<Rightarrow> SILFunction \<Rightarrow> nat \<Rightarrow> bool \<Rightarrow>
     failure + (SILFunction \<times> SILInstruction list)"
where
  "LowerAssignInstruction getTypeLowering F Inst isInitialization =
     (case find_inst F Inst of
        None \<Rightarrow> Inl Dangling_Instruction
      | Some (BB, p) \<Rightarrow> LowerAssignInstruction_at getTypeLowering F BB p isInitialization)"

text \<open>What a builder has done since it was built at position \<open>p\<close> of block \<open>BB\<close> of \<open>F\<close>:
  it has put the instructions \<open>new\<close> there.\<close>

definition built :: "SILFunction \<Rightarrow> nat \<Rightarrow> nat \<Rightarrow> SILInstruction list \<Rightarrow> SILBuilder \<Rightarrow> bool" where
  "built F BB p new B =
     (InsertBB B = BB \<and> InsertPt B = p + length new \<and> InsertedInsts B = new
      \<and> length (blocks (BFn B)) = length (blocks F)
      \<and> block_insts (BFn B) BB = take p (block_insts F BB) @ new @ drop p (block_insts F BB)
      \<and> (\<forall>b. b \<noteq> BB \<longrightarrow> block_insts (BFn B) b = block_insts F b)
      \<and> (\<forall>b. pred_blocks (BFn B) b = pred_blocks F b)
      \<and> next_inst_id (BFn B) = next_inst_id F + length new)"

subsection \<open>What the builder and the lowering of assign do to a block\<close>

lemma block_insts_update_block_insts:
  "block_insts (update_block_insts F BB g) b =
     (if b = BB \<and> BB < length (blocks F) then g (block_insts F BB) else block_insts F b)"
  by (simp add: block_insts_def update_block_insts_def nth_list_update)

lemma pred_blocks_update_block_insts:
  "pred_blocks (update_block_insts F BB g) b = pred_blocks F b"
  by (simp add: pred_blocks_def update_block_insts_def nth_list_update)

lemma length_blocks_update_block_insts:
  "length (blocks (update_block_insts F BB g)) = length (blocks F)"
  by (simp add: update_block_insts_def)

lemma next_inst_id_update_block_insts:
  "next_inst_id (update_block_insts F BB g) = next_inst_id F"
  by (simp add: update_block_insts_def)

lemma block_insts_next_inst_id_update:
  "block_insts (F\<lparr>next_inst_id := n\<rparr>) b = block_insts F b"
  "pred_blocks (F\<lparr>next_inst_id := n\<rparr>) b = pred_blocks F b"
  by (simp_all add: block_insts_def pred_blocks_def)

lemma built_initial:
  "built F BB p [] \<lparr>BFn = F, InsertBB = BB, InsertPt = p, InsertedInsts = []\<rparr>"
  by (simp add: built_def)

lemma built_createInst:
  assumes b: "built F BB p new B" and bb: "BB < length (blocks F)"
    and p: "p \<le> length (block_insts F BB)"
  shows "built F BB p
           (new @ [\<lparr>inst_id = next_inst_id F + length new, inst = i, inst_ty = t, loc = l\<rparr>])
           (fst (createInst B l i t))
         \<and> snd (createInst B l i t) = next_inst_id F + length new"
proof -
  let ?I = "\<lparr>inst_id = next_inst_id F + length new, inst = i, inst_ty = t, loc = l\<rparr>"
  let ?old = "block_insts F BB"
  have len: "length (take p ?old) = p" using p by simp
  have "take (p + length new) (take p ?old @ new @ drop p ?old) @ ?I
          # drop (p + length new) (take p ?old @ new @ drop p ?old)
        = take p ?old @ (new @ [?I]) @ drop p ?old"
    using len by (simp add: take_add [symmetric] del: length_take)
  then show ?thesis
    using b bb
    by (simp add: built_def createInst_def Let_def insert_at_def
        block_insts_update_block_insts pred_blocks_update_block_insts
        length_blocks_update_block_insts next_inst_id_update_block_insts
        block_insts_next_inst_id_update)
qed

lemma built_emit_lifetime_ops:
  assumes bb: "BB < length (blocks F)" and p: "p \<le> length (block_insts F BB)"
  shows "built F BB p new B \<Longrightarrow>
     \<exists>more. built F BB p (new @ more) (emit_lifetime_ops B l ops v)
       \<and> map inst more = map (\<lambda>op. lifetime_inst op v) ops
       \<and> map inst_id more = [next_inst_id F + length new ..< next_inst_id F + length new + length ops]
       \<and> (\<forall>I\<in>set more. loc I = l)"
proof (induction ops arbitrary: B new)
  case Nil
  then show ?case by simp
next
  case (Cons op ops)
  let ?I = "\<lparr>inst_id = next_inst_id F + length new, inst = lifetime_inst op v,
             inst_ty = no_result_ty, loc = l\<rparr>"
  have "built F BB p (new @ [?I]) (fst (createInst B l (lifetime_inst op v) no_result_ty))"
    using built_createInst [OF Cons.prems bb p] by simp
  from Cons.IH [OF this] obtain more where
    m: "built F BB p ((new @ [?I]) @ more)
          (emit_lifetime_ops (fst (createInst B l (lifetime_inst op v) no_result_ty)) l ops v)"
      "map inst more = map (\<lambda>op. lifetime_inst op v) ops"
      "map inst_id more = [next_inst_id F + length (new @ [?I]) ..<
                             next_inst_id F + length (new @ [?I]) + length ops]"
      "\<forall>I\<in>set more. loc I = l"
    by blast
  have "[next_inst_id F + length new ..< next_inst_id F + length new + length (op # ops)]
      = (next_inst_id F + length new) # [next_inst_id F + length (new @ [?I]) ..<
                             next_inst_id F + length (new @ [?I]) + length ops]"
    by (simp add: upt_rec)
  with m show ?case
    by (intro exI [of _ "?I # more"]) simp
qed

lemma erase_after_built:
  assumes b: "built F BB p new B" and bb: "BB < length (blocks F)"
    and p: "p < length (block_insts F BB)"
  shows "block_insts (erase_at (BFn B) (InsertBB B) (InsertPt B)) b =
           (if b = BB then take p (block_insts F BB) @ new @ drop (Suc p) (block_insts F BB)
            else block_insts F b)"
proof -
  let ?old = "block_insts F BB"
  have len: "length (take p ?old) = p" using p by simp
  have "take (p + length new) (take p ?old @ new @ drop p ?old)
          @ drop (Suc (p + length new)) (take p ?old @ new @ drop p ?old)
        = take p ?old @ new @ drop (Suc p) ?old"
    using len p by (simp add: take_add [symmetric] del: length_take)
  then show ?thesis
    using b bb by (simp add: built_def erase_at_def block_insts_update_block_insts)
qed

lemma LowerAssignInstruction_at_result:
  assumes bb: "BB < length (blocks F)" and p: "p < length (block_insts F BB)"
    and a: "inst (block_insts F BB ! p) = Assign Src Dest"
  shows "\<exists>F' new. LowerAssignInstruction_at getTypeLowering F BB p isInitialization = Inr (F', new)
     \<and> block_insts F' BB = take p (block_insts F BB) @ new @ drop (Suc p) (block_insts F BB)
     \<and> (\<forall>b. b \<noteq> BB \<longrightarrow> block_insts F' b = block_insts F b)
     \<and> map inst new =
         (if isInitialization \<or> isTrivial (getTypeLowering (vty Dest)) then [Store Src Dest]
          else [Load Dest, Store Src Dest]
               @ map (\<lambda>op. lifetime_inst op (SILValue (next_inst_id F) 0 (vty Dest)))
                   (destroy_ops (getTypeLowering (vty Dest))))
     \<and> map inst_id new = [next_inst_id F ..< next_inst_id F + length new]
     \<and> (\<forall>I\<in>set new. loc I = loc (block_insts F BB ! p))
     \<and> length (blocks F') = length (blocks F)"
proof -
  let ?AI = "block_insts F BB ! p"
  let ?l = "loc ?AI"
  let ?TL = "getTypeLowering (vty Dest)"
  let ?B = "\<lparr>BFn = F, InsertBB = BB, InsertPt = p, InsertedInsts = []\<rparr>"
  have ple: "p \<le> length (block_insts F BB)" using p by simp
  note b0 = built_initial [of F BB p]
  show ?thesis
  proof (cases "isInitialization \<or> isTrivial ?TL")
    case True
    let ?S = "\<lparr>inst_id = next_inst_id F, inst = Store Src Dest, inst_ty = no_result_ty, loc = ?l\<rparr>"
    let ?B' = "fst (createInst ?B ?l (Store Src Dest) no_result_ty)"
    have b1: "built F BB p [?S] ?B'"
      using built_createInst [OF b0 bb ple, of "Store Src Dest" no_result_ty ?l] by simp
    have r: "LowerAssignInstruction_at getTypeLowering F BB p isInitialization
        = Inr (erase_at (BFn ?B') (InsertBB ?B') (InsertPt ?B'), [?S])"
      using a True b1 by (simp add: LowerAssignInstruction_at_def Let_def built_def)
    have "length (blocks (erase_at (BFn ?B') (InsertBB ?B') (InsertPt ?B'))) = length (blocks F)"
      using b1 by (simp add: erase_at_def length_blocks_update_block_insts built_def)
    then show ?thesis
      unfolding r using True erase_after_built [OF b1 bb p] by simp
  next
    case False
    let ?L = "\<lparr>inst_id = next_inst_id F, inst = Load Dest, inst_ty = vty Dest, loc = ?l\<rparr>"
    let ?S = "\<lparr>inst_id = next_inst_id F + 1, inst = Store Src Dest, inst_ty = no_result_ty, loc = ?l\<rparr>"
    let ?c1 = "createInst ?B ?l (Load Dest) (vty Dest)"
    let ?B2 = "fst (createInst (fst ?c1) ?l (Store Src Dest) no_result_ty)"
    let ?v = "SILValue (next_inst_id F) 0 (vty Dest)"
    let ?B' = "emit_lifetime_ops ?B2 ?l (destroy_ops ?TL) ?v"
    have b1: "built F BB p [?L] (fst ?c1)" and v: "snd ?c1 = next_inst_id F"
      using built_createInst [OF b0 bb ple, of "Load Dest" "vty Dest" ?l] by simp_all
    have b2: "built F BB p ([?L] @ [?S]) ?B2"
      using built_createInst [OF b1 bb ple, of "Store Src Dest" no_result_ty ?l] by simp
    from built_emit_lifetime_ops [OF bb ple b2, of ?l "destroy_ops ?TL" ?v]
    obtain more where
      b3: "built F BB p (([?L] @ [?S]) @ more) ?B'"
      and m: "map inst more = map (\<lambda>op. lifetime_inst op ?v) (destroy_ops ?TL)"
        "map inst_id more = [next_inst_id F + length ([?L] @ [?S]) ..<
            next_inst_id F + length ([?L] @ [?S]) + length (destroy_ops ?TL)]"
        "\<forall>I\<in>set more. loc I = ?l"
      by blast
    have lm: "length more = length (destroy_ops ?TL)"
      using m(1) by (metis length_map)
    define new where "new = [?L, ?S] @ more"
    define F' where "F' = erase_at (BFn ?B') (InsertBB ?B') (InsertPt ?B')"
    have b3': "built F BB p new ?B'" using b3 by (simp add: new_def)
    have r: "LowerAssignInstruction_at getTypeLowering F BB p isInitialization = Inr (F', new)"
      using a False v b3'
      by (simp add: LowerAssignInstruction_at_def Let_def built_def
          emitDestroyValue_def split_beta F'_def)
    have c1: "block_insts F' BB = take p (block_insts F BB) @ new @ drop (Suc p) (block_insts F BB)"
      and c2: "\<forall>b. b \<noteq> BB \<longrightarrow> block_insts F' b = block_insts F b"
      using erase_after_built [OF b3' bb p] by (simp_all add: F'_def)
    have c3: "map inst new = [Load Dest, Store Src Dest]
               @ map (\<lambda>op. lifetime_inst op ?v) (destroy_ops ?TL)"
      using m(1) by (simp add: new_def)
    have e: "next_inst_id F + length new = Suc (Suc (next_inst_id F)) + length more"
      by (simp add: new_def)
    have "[next_inst_id F ..< Suc (Suc (next_inst_id F)) + length more]
        = next_inst_id F # [Suc (next_inst_id F) ..< Suc (Suc (next_inst_id F)) + length more]"
      by (rule upt_conv_Cons) simp
    also have "[Suc (next_inst_id F) ..< Suc (Suc (next_inst_id F)) + length more]
        = Suc (next_inst_id F)
            # [Suc (Suc (next_inst_id F)) ..< Suc (Suc (next_inst_id F)) + length more]"
      by (rule upt_conv_Cons) simp
    finally have "[next_inst_id F ..< next_inst_id F + length new]
        = next_inst_id F # Suc (next_inst_id F)
            # [Suc (Suc (next_inst_id F)) ..< Suc (Suc (next_inst_id F)) + length more]"
      unfolding e .
    moreover have "map inst_id new = next_inst_id F # Suc (next_inst_id F)
            # [Suc (Suc (next_inst_id F)) ..< Suc (Suc (next_inst_id F)) + length more]"
      using m(2) lm by (simp add: new_def del: upt_Suc)
    ultimately have c4: "map inst_id new = [next_inst_id F ..< next_inst_id F + length new]"
      by simp
    have c5: "\<forall>I\<in>set new. loc I = ?l"
      using m(3) by (simp add: new_def)
    have c6: "length (blocks F') = length (blocks F)"
      using b3' by (simp add: F'_def erase_at_def length_blocks_update_block_insts built_def)
    show ?thesis
      unfolding r using False c1 c2 c3 c4 c5 c6 by simp
  qed
qed

lemma LowerAssignInstruction_result:
  assumes f: "find_inst F Inst = Some (BB, p)"
    and a: "inst (block_insts F BB ! p) = Assign Src Dest"
  shows "\<exists>F' new. LowerAssignInstruction getTypeLowering F Inst isInitialization = Inr (F', new)
     \<and> block_insts F' BB = take p (block_insts F BB) @ new @ drop (Suc p) (block_insts F BB)
     \<and> (\<forall>b. b \<noteq> BB \<longrightarrow> block_insts F' b = block_insts F b)
     \<and> map inst new =
         (if isInitialization \<or> isTrivial (getTypeLowering (vty Dest)) then [Store Src Dest]
          else [Load Dest, Store Src Dest]
               @ map (\<lambda>op. lifetime_inst op (SILValue (next_inst_id F) 0 (vty Dest)))
                   (destroy_ops (getTypeLowering (vty Dest))))
     \<and> map inst_id new = [next_inst_id F ..< next_inst_id F + length new]
     \<and> (\<forall>I\<in>set new. loc I = loc (block_insts F BB ! p))
     \<and> length (blocks F') = length (blocks F)"
  using LowerAssignInstruction_at_result [OF _ _ a, of getTypeLowering isInitialization]
    find_inst_Some [OF f]
  by (simp add: LowerAssignInstruction_def f)

section \<open>Access paths\<close>

text \<open>The loop of \<open>TryComputingAccessPath\<close> over the tuple fields before \<open>FieldNo\<close>: the
  sum of their sub-element counts; \<open>None\<close> where \<open>getElementType(i)\<close> is asked for a field
  the tuple does not have.\<close>

fun count_fields_before :: "(string option \<times> ty) list \<Rightarrow> nat \<Rightarrow> nat option" where
  "count_fields_before fs 0 = Some 0"
| "count_fields_before [] (Suc k) = None"
| "count_fields_before ((n, t) # fs) (Suc k) =
     map_option (\<lambda>s. getNumSubElements t + s) (count_fields_before fs k)"

text \<open>The loop over the stored properties up to the field of the projection.\<close>

fun count_props_before :: "(string \<times> ty) list \<Rightarrow> string \<Rightarrow> nat" where
  "count_props_before [] f = 0"
| "count_props_before ((n, t) # ps) f =
     (if n = f then 0 else getNumSubElements t + count_props_before ps f)"

text \<open>
  \<open>TryComputingAccessPath\<close>: the pointer is chased up to the root. The loop of the source
  is \<open>while (1)\<close>; where it never ends the value is \<open>None\<close>. Otherwise the result is
  whether the root was reached, with \<open>SubEltNumber\<close>. A pointer that is no instruction
  (a function argument) is neither kind of projection.
\<close>

partial_function (option) TryComputingAccessPath ::
  "SILFunction \<Rightarrow> nat \<Rightarrow> SILValue \<Rightarrow> nat \<Rightarrow> (failure + bool \<times> nat) option"
where
  "TryComputingAccessPath F RootInst Pointer SubEltNumber =
     (if RootInst = vdef Pointer then Some (Inr (True, SubEltNumber))
      else
        (case get_inst F (vdef Pointer) of
           None \<Rightarrow> Some (Inr (False, SubEltNumber))
         | Some I \<Rightarrow>
             (case inst I of
                TupleElementAddr Operand FieldNo \<Rightarrow>
                  (case vty Operand of
                     TupleTy fs \<Rightarrow>
                       (case count_fields_before fs FieldNo of
                          None \<Rightarrow> Some (Inl Index_Out_Of_Range)
                        | Some k \<Rightarrow> TryComputingAccessPath F RootInst Operand (SubEltNumber + k))
                   | _ \<Rightarrow> Some (Inl Assertion_Failed))
              | StructElementAddr Operand FieldDecl \<Rightarrow>
                  (case vty Operand of
                     StructTy n ps \<Rightarrow>
                       TryComputingAccessPath F RootInst Operand
                         (SubEltNumber + count_props_before ps FieldDecl)
                   | _ \<Rightarrow> Some (Inl Assertion_Failed))
              | _ \<Rightarrow> Some (Inr (False, SubEltNumber)))))"

declare TryComputingAccessPath.simps [code]

text \<open>\<open>ComputeAccessPath\<close> asserts that the root was reached. A chase that never ends
  is the failure \<open>Never_Returns\<close>.\<close>

definition ComputeAccessPath :: "SILFunction \<Rightarrow> SILValue \<Rightarrow> nat \<Rightarrow> failure + nat" where
  "ComputeAccessPath F Pointer RootInst =
     (case TryComputingAccessPath F RootInst Pointer 0 of
        None \<Rightarrow> Inl Never_Returns
      | Some (Inl e) \<Rightarrow> Inl e
      | Some (Inr (Result, FirstSubElement)) \<Rightarrow>
          (if Result then Inr FirstSubElement else Inl Assertion_Failed))"

section \<open>Available values\<close>

text \<open>The demanded elements are a bit vector, the available values a vector of pairs of
  a value and the number of the sub-element of that value, or nothing (the null value).\<close>

type_synonym AvailableValues = "(SILValue \<times> nat) option list"

definition none_set :: "bool list \<Rightarrow> bool" where
  "none_set RequiredElts = (\<forall>b\<in>set RequiredElts. \<not> b)"

text \<open>The loop of \<open>updateAvailableValues\<close> over the sub-elements \<open>i\<close> of the stored value.
  Reading a bit or writing an entry outside the vector fails.\<close>

fun fill_available ::
  "SILValue \<Rightarrow> nat \<Rightarrow> nat list \<Rightarrow> bool list \<times> AvailableValues \<times> bool \<Rightarrow>
     failure + bool list \<times> AvailableValues \<times> bool"
where
  "fill_available v StartSubElt [] st = Inr st"
| "fill_available v StartSubElt (i # is) (RequiredElts, Result, ProducedSomething) =
     (if length RequiredElts \<le> StartSubElt + i then Inl Index_Out_Of_Range
      else if \<not> RequiredElts ! (StartSubElt + i)
      then fill_available v StartSubElt is (RequiredElts, Result, ProducedSomething)
      else if length Result \<le> StartSubElt + i then Inl Index_Out_Of_Range
      else fill_available v StartSubElt is
             (RequiredElts[StartSubElt + i := False],
              Result[StartSubElt + i := Some (v, i)], True))"

text \<open>\<open>updateAvailableValues\<close>: the result is whether something was produced, with the
  demanded elements and the available values. \<open>RequiredElts.clear()\<close> empties the bit
  vector.\<close>

definition store_available ::
  "SILFunction \<Rightarrow> nat \<Rightarrow> SILValue \<Rightarrow> SILValue \<Rightarrow> bool list \<Rightarrow> AvailableValues \<Rightarrow>
     failure + bool \<times> bool list \<times> AvailableValues"
where
  "store_available F Memory v a RequiredElts Result =
     (case ComputeAccessPath F a Memory of
        Inl e \<Rightarrow> Inl e
      | Inr StartSubElt \<Rightarrow>
          (case fill_available v StartSubElt [0 ..< getNumSubElements (vty v)]
                  (RequiredElts, Result, False) of
             Inl e \<Rightarrow> Inl e
           | Inr (RequiredElts', Result', ProducedSomething) \<Rightarrow>
               Inr (ProducedSomething, RequiredElts', Result')))"

definition updateAvailableValues ::
  "ElementPromotion \<Rightarrow> SILInstruction \<Rightarrow> bool list \<Rightarrow> AvailableValues \<Rightarrow>
     failure + bool \<times> bool list \<times> AvailableValues"
where
  "updateAvailableValues EP Inst RequiredElts Result =
     (case inst Inst of
        Store v a \<Rightarrow> store_available (Fn EP) (TheMemory EP) v a RequiredElts Result
      | Assign v a \<Rightarrow> store_available (Fn EP) (TheMemory EP) v a RequiredElts Result
      | _ \<Rightarrow> Inr (False, [], Result))"

text \<open>The backward scan of \<open>computeAvailableValues\<close> over the instructions before the
  load, nearest first; it stops when nothing is demanded any more.\<close>

fun scan_available ::
  "ElementPromotion \<Rightarrow> SILInstruction list \<Rightarrow> bool \<times> bool list \<times> AvailableValues \<Rightarrow>
     failure + bool \<times> bool list \<times> AvailableValues"
where
  "scan_available EP [] st = Inr st"
| "scan_available EP (TheInst # earlier) (FoundSomeValues, RequiredElts, Result) =
     (if inst_id TheInst \<in> NonLoadUses EP then
        (case updateAvailableValues EP TheInst RequiredElts Result of
           Inl e \<Rightarrow> Inl e
         | Inr (produced, RequiredElts', Result') \<Rightarrow>
             (if none_set RequiredElts'
              then Inr (FoundSomeValues \<or> produced, RequiredElts', Result')
              else scan_available EP earlier (FoundSomeValues \<or> produced, RequiredElts', Result')))
      else scan_available EP earlier (FoundSomeValues, RequiredElts, Result))"

text \<open>\<open>computeAvailableValues\<close>: the first component of the result is the returned
  \<open>bool\<close>, which is true when no available value was found.\<close>

definition computeAvailableValues ::
  "ElementPromotion \<Rightarrow> nat \<Rightarrow> bool list \<Rightarrow> AvailableValues \<Rightarrow>
     failure + bool \<times> bool list \<times> AvailableValues"
where
  "computeAvailableValues EP StartingFrom RequiredElts Result =
     (if none_set RequiredElts then Inr (False, RequiredElts, Result)
      else
        (case find_inst (Fn EP) StartingFrom of
           None \<Rightarrow> Inl Dangling_Instruction
         | Some (InstBB, pos) \<Rightarrow>
             (if HasNonLoadUse (PerBlockInfo EP InstBB) then
                (case scan_available EP (rev (take pos (block_insts (Fn EP) InstBB)))
                        (False, RequiredElts, Result) of
                   Inl e \<Rightarrow> Inl e
                 | Inr (FoundSomeValues, RequiredElts', Result') \<Rightarrow>
                     Inr (\<not> FoundSomeValues, RequiredElts', Result'))
              else Inr (True, RequiredElts, Result))))"

text \<open>Some value is available: an entry of the vector is not the null value.\<close>

definition some_available :: "AvailableValues \<Rightarrow> bool" where
  "some_available Result = (\<exists>x\<in>set Result. x \<noteq> None)"

section \<open>The wording of the specification for the available values\<close>

fun is_store_or_assign :: "Inst \<Rightarrow> bool" where
  "is_store_or_assign (Store v a) = True"
| "is_store_or_assign (Assign v a) = True"
| "is_store_or_assign other = False"

text \<open>The span of a store or assign: the stored value, the sub-element its access path
  starts at, and the number of sub-elements of the value.\<close>

definition value_span :: "ElementPromotion \<Rightarrow> SILValue \<Rightarrow> SILValue \<Rightarrow> (SILValue \<times> nat \<times> nat) option" where
  "value_span EP v a =
     (case ComputeAccessPath (Fn EP) a (TheMemory EP) of
        Inl e \<Rightarrow> None
      | Inr S \<Rightarrow> Some (v, S, getNumSubElements (vty v)))"

definition store_span :: "ElementPromotion \<Rightarrow> SILInstruction \<Rightarrow> (SILValue \<times> nat \<times> nat) option" where
  "store_span EP I =
     (case inst I of
        Store v a \<Rightarrow> value_span EP v a
      | Assign v a \<Rightarrow> value_span EP v a
      | _ \<Rightarrow> None)"

text \<open>The stores and assigns that the backward scan can see: of the instructions before
  the load that are in \<open>NonLoadUses\<close>, nearest first, those that come before the first
  one that is no store and no assign.\<close>

definition visible_stores :: "ElementPromotion \<Rightarrow> SILInstruction list \<Rightarrow> SILInstruction list" where
  "visible_stores EP is =
     takeWhile (\<lambda>I. is_store_or_assign (inst I)) (filter (\<lambda>I. inst_id I \<in> NonLoadUses EP) is)"

text \<open>In the block of the load: the instructions before position \<open>pos\<close>, nearest first.
  No other block is looked at.\<close>

definition own_block_stores :: "ElementPromotion \<Rightarrow> nat \<Rightarrow> nat \<Rightarrow> SILInstruction list" where
  "own_block_stores EP BB pos =
     (if HasNonLoadUse (PerBlockInfo EP BB)
      then visible_stores EP (rev (take pos (block_insts (Fn EP) BB)))
      else [])"

text \<open>The value that provides sub-element \<open>k\<close>: the one of the nearest store or assign
  whose span holds \<open>k\<close>, with the number of the sub-element inside that value.\<close>

fun provider :: "ElementPromotion \<Rightarrow> SILInstruction list \<Rightarrow> nat \<Rightarrow> (SILValue \<times> nat) option" where
  "provider EP [] k = None"
| "provider EP (I # stores) k =
     (case store_span EP I of
        None \<Rightarrow> provider EP stores k
      | Some (v, S, n) \<Rightarrow> (if S \<le> k \<and> k < S + n then Some (v, k - S) else provider EP stores k))"

text \<open>The store or assign reads and writes inside the vectors of \<open>n\<close> sub-elements.\<close>

definition store_in_range :: "ElementPromotion \<Rightarrow> nat \<Rightarrow> SILInstruction \<Rightarrow> bool" where
  "store_in_range EP n I =
     (inst_id I \<notin> NonLoadUses EP \<or> \<not> is_store_or_assign (inst I)
      \<or> (case store_span EP I of None \<Rightarrow> False | Some (v, S, m) \<Rightarrow> S + m \<le> n))"

section \<open>Diagnostics and the handlers of the uses\<close>

text \<open>\<open>diagnoseInitError\<close>: the error at the use, with the name of the variable and the
  path to the element, and the note at the allocation. Everything that can fail comes
  before the first call of \<open>diagnose\<close>.\<close>

definition diagnoseInitError :: "ElementPromotion \<Rightarrow> nat \<Rightarrow> Diag \<Rightarrow> failure + ElementPromotion" where
  "diagnoseInitError EP Use DiagMessage =
     (case get_inst (Fn EP) (TheMemory EP) of
        None \<Rightarrow> Inl Dangling_Instruction
      | Some M \<Rightarrow>
          (case getPathStringToElement (inst_ty M) (ElementNumber EP)
                  (case decl_name (loc M) of Some n \<Rightarrow> n | None \<Rightarrow> ''<unknown>'') of
             None \<Rightarrow> Inl Assertion_Failed
           | Some Name \<Rightarrow>
               (case get_inst (Fn EP) Use of
                  None \<Rightarrow> Inl Dangling_Instruction
                | Some U \<Rightarrow>
                    Inr (EP\<lparr>HadError := True,
                            Diags := Diags EP @
                              [Diagnostic (source_loc (loc U)) DiagMessage (Some Name),
                               Diagnostic (source_loc (loc M)) variable_defined_here None]\<rparr>))))"

definition handleLoadUse :: "ElementPromotion \<Rightarrow> nat \<Rightarrow> failure + ElementPromotion" where
  "handleLoadUse EP Inst =
     (case checkDefinitelyInit EP Inst of
        Inl e \<Rightarrow> Inl e
      | Inr (EP', DI) \<Rightarrow>
          (if DI \<noteq> DI_Yes then diagnoseInitError EP' Inst variable_used_before_initialized
           else Inr EP'))"

text \<open>The stores that \<open>handleStoreUse\<close> looks at when the store is not partial: an assign,
  and a \<open>copy_addr\<close> or \<open>store_weak\<close> that is not yet an initialization.\<close>

fun store_needs_check :: "Inst \<Rightarrow> bool" where
  "store_needs_check (Assign v a) = True"
| "store_needs_check (CopyAddr s d t i) = (\<not> i)"
| "store_needs_check (StoreWeak v a i) = (\<not> i)"
| "store_needs_check other = False"

text \<open>The loop over the instructions that the lowering of an assign has inserted.\<close>

fun track_inserted :: "SILInstruction list \<Rightarrow> nat set \<times> ElementUses \<Rightarrow> nat set \<times> ElementUses" where
  "track_inserted [] st = st"
| "track_inserted (I # Is) (NLU, U) =
     (case inst I of
        Store v a \<Rightarrow> track_inserted Is (insert (inst_id I) NLU, U @ [(Some (inst_id I), Store_Use)])
      | Load a \<Rightarrow> track_inserted Is (NLU, U @ [(Some (inst_id I), Load_Use)])
      | _ \<Rightarrow> track_inserted Is (NLU, U))"

definition setIsInitializationOfDest :: "bool \<Rightarrow> SILInstruction \<Rightarrow> SILInstruction" where
  "setIsInitializationOfDest b I =
     (case inst I of
        CopyAddr s d t i \<Rightarrow> I\<lparr>inst := CopyAddr s d t b\<rparr>
      | StoreWeak v a i \<Rightarrow> I\<lparr>inst := StoreWeak v a b\<rparr>
      | _ \<Rightarrow> I)"

definition handleStoreUse ::
  "(ty \<Rightarrow> TypeLowering) \<Rightarrow> ElementPromotion \<Rightarrow> nat \<Rightarrow> bool \<Rightarrow> failure + ElementPromotion"
where
  "handleStoreUse getTypeLowering EP Inst isPartialStore =
     (case find_inst (Fn EP) Inst of
        None \<Rightarrow> Inl Dangling_Instruction
      | Some (BB, p) \<Rightarrow>
          (let I = block_insts (Fn EP) BB ! p in
           if \<not> isPartialStore \<and> \<not> store_needs_check (inst I) then Inr EP
           else
             (case checkDefinitelyInit EP Inst of
                Inl e \<Rightarrow> Inl e
              | Inr (EP', DI) \<Rightarrow>
                  (if isPartialStore \<and> DI \<noteq> DI_Yes
                   then diagnoseInitError EP' Inst struct_not_fully_initialized
                   else if DI = DI_Partial
                   then diagnoseInitError EP' Inst variable_initialized_on_some_paths
                   else
                     (case inst I of
                        CopyAddr s d t i \<Rightarrow>
                          Inr (EP'\<lparr>Fn := update_at (Fn EP') BB p
                                              (setIsInitializationOfDest (DI = DI_No))\<rparr>)
                      | StoreWeak v a i \<Rightarrow>
                          Inr (EP'\<lparr>Fn := update_at (Fn EP') BB p
                                              (setIsInitializationOfDest (DI = DI_No))\<rparr>)
                      | Assign v a \<Rightarrow>
                          (case LowerAssignInstruction getTypeLowering (Fn EP') Inst (DI = DI_No) of
                             Inl e \<Rightarrow> Inl e
                           | Inr (F', Inserted) \<Rightarrow>
                               (let (NLU, U) = track_inserted Inserted
                                                 (NonLoadUses EP' - {Inst}, Uses EP')
                                in Inr (EP'\<lparr>Fn := F', NonLoadUses := NLU, Uses := U\<rparr>)))
                      | _ \<Rightarrow> Inr EP')))))"

definition handleInOutUse :: "ElementPromotion \<Rightarrow> nat \<Rightarrow> failure + ElementPromotion" where
  "handleInOutUse EP Inst =
     (case checkDefinitelyInit EP Inst of
        Inl e \<Rightarrow> Inl e
      | Inr (EP', DI) \<Rightarrow>
          (if DI = DI_Yes then Inr EP'
           else diagnoseInitError EP' Inst variable_inout_before_initialized))"

fun is_MarkFunctionEscape :: "Inst \<Rightarrow> bool" where
  "is_MarkFunctionEscape (MarkFunctionEscape as) = True"
| "is_MarkFunctionEscape other = False"

definition handleEscape :: "ElementPromotion \<Rightarrow> nat \<Rightarrow> failure + ElementPromotion" where
  "handleEscape EP Inst =
     (case checkDefinitelyInit EP Inst of
        Inl e \<Rightarrow> Inl e
      | Inr (EP', DI) \<Rightarrow>
          (if DI = DI_Yes then Inr EP'
           else
             (case get_inst (Fn EP') Inst of
                None \<Rightarrow> Inl Dangling_Instruction
              | Some I \<Rightarrow>
                  (if is_MarkFunctionEscape (inst I)
                   then diagnoseInitError EP' Inst global_variable_function_use_uninit
                   else diagnoseInitError EP' Inst variable_escape_before_initialized))))"

definition handleRelease :: "ElementPromotion \<Rightarrow> nat \<Rightarrow> failure + ElementPromotion" where
  "handleRelease EP Inst =
     (case checkDefinitelyInit EP Inst of
        Inl e \<Rightarrow> Inl e
      | Inr (EP', DI) \<Rightarrow>
          (if DI = DI_Yes then Inr EP'
           else diagnoseInitError EP' Inst variable_destroyed_before_initialized))"

text \<open>The \<open>switch\<close> of \<open>doIt\<close> over the kind of a use.\<close>

fun handle_use ::
  "(ty \<Rightarrow> TypeLowering) \<Rightarrow> ElementPromotion \<Rightarrow> nat \<Rightarrow> UseKind \<Rightarrow> failure + ElementPromotion"
where
  "handle_use TL EP Inst Load_Use = handleLoadUse EP Inst"
| "handle_use TL EP Inst Store_Use = handleStoreUse TL EP Inst False"
| "handle_use TL EP Inst PartialStore_Use = handleStoreUse TL EP Inst True"
| "handle_use TL EP Inst InOutUse = handleInOutUse EP Inst"
| "handle_use TL EP Inst Escape_Use = handleEscape EP Inst"
| "handle_use TL EP Inst Release_Use = handleRelease EP Inst"

section \<open>Load promotion\<close>

text \<open>\<open>ExtractSubElement\<close>: the extracts that reach sub-element \<open>SubElementNumber\<close> of a
  value of type \<open>ValTy\<close>. The loops over the fields carry the running number; running out
  of fields is \<open>assert(0 && "Didn't find field")\<close>.\<close>

fun ExtractSubElement ::
    "SILBuilder \<Rightarrow> SILLocation \<Rightarrow> ty \<Rightarrow> SILValue \<Rightarrow> nat \<Rightarrow> failure + SILBuilder \<times> SILValue"
  and ExtractSubElement_fields ::
    "SILBuilder \<Rightarrow> SILLocation \<Rightarrow> (string option \<times> ty) list \<Rightarrow> SILValue \<Rightarrow> nat \<Rightarrow> nat \<Rightarrow>
       failure + SILBuilder \<times> SILValue"
  and ExtractSubElement_props ::
    "SILBuilder \<Rightarrow> SILLocation \<Rightarrow> (string \<times> ty) list \<Rightarrow> SILValue \<Rightarrow> nat \<Rightarrow>
       failure + SILBuilder \<times> SILValue"
where
  "ExtractSubElement B Loc (TupleTy fs) Val SubElementNumber =
     ExtractSubElement_fields B Loc fs Val 0 SubElementNumber"
| "ExtractSubElement B Loc (StructTy n ps) Val SubElementNumber =
     ExtractSubElement_props B Loc ps Val SubElementNumber"
| "ExtractSubElement B Loc (OtherTy n) Val SubElementNumber =
     (if SubElementNumber = 0 then Inr (B, Val) else Inl Assertion_Failed)"
| "ExtractSubElement_fields B Loc [] Val EltNo SubElementNumber = Inl Assertion_Failed"
| "ExtractSubElement_fields B Loc ((n, t) # fs) Val EltNo SubElementNumber =
     (if SubElementNumber < getNumSubElements t
      then ExtractSubElement (fst (createInst B Loc (TupleExtract Val EltNo) t)) Loc t
             (SILValue (next_inst_id (BFn B)) 0 t) SubElementNumber
      else ExtractSubElement_fields B Loc fs Val (Suc EltNo)
             (SubElementNumber - getNumSubElements t))"
| "ExtractSubElement_props B Loc [] Val SubElementNumber = Inl Assertion_Failed"
| "ExtractSubElement_props B Loc ((n, t) # ps) Val SubElementNumber =
     (if SubElementNumber < getNumSubElements t
      then ExtractSubElement (fst (createInst B Loc (StructExtract Val n) t)) Loc t
             (SILValue (next_inst_id (BFn B)) 0 t) SubElementNumber
      else ExtractSubElement_props B Loc ps Val (SubElementNumber - getNumSubElements t))"

text \<open>\<open>anyMissing\<close>; reading an entry outside the vector fails.\<close>

fun anyMissing :: "nat \<Rightarrow> nat \<Rightarrow> AvailableValues \<Rightarrow> failure + bool" where
  "anyMissing StartSubElt 0 Values = Inr False"
| "anyMissing StartSubElt (Suc NumSubElts) Values =
     (if length Values \<le> StartSubElt then Inl Index_Out_Of_Range
      else if Values ! StartSubElt = None then Inr True
      else anyMissing (Suc StartSubElt) NumSubElts Values)"

text \<open>The first check of \<open>AggregateAvailableValues\<close>: the whole requested value is
  available as one value of the load's type. The loop is the one that sets \<open>AllMatch\<close>.\<close>

fun all_match :: "AvailableValues \<Rightarrow> nat \<Rightarrow> SILValue \<Rightarrow> nat list \<Rightarrow> failure + bool" where
  "all_match Values FirstElt FirstVal [] = Inr True"
| "all_match Values FirstElt FirstVal (i # is) =
     (if length Values \<le> FirstElt + i then Inl Index_Out_Of_Range
      else
        (case Values ! (FirstElt + i) of
           None \<Rightarrow> Inr False
         | Some (v, k) \<Rightarrow>
             (if \<not> same_value v FirstVal \<or> k \<noteq> i then Inr False
              else all_match Values FirstElt FirstVal is)))"

definition fully_available :: "AvailableValues \<Rightarrow> nat \<Rightarrow> ty \<Rightarrow> failure + SILValue option" where
  "fully_available Values FirstElt LoadTy =
     (if FirstElt < length Values then
        (case Values ! FirstElt of
           None \<Rightarrow> Inr None
         | Some (FirstVal, k) \<Rightarrow>
             (if k = 0 \<and> vty FirstVal = LoadTy then
                (case all_match Values FirstElt FirstVal [0 ..< getNumSubElements LoadTy] of
                   Inl e \<Rightarrow> Inl e
                 | Inr AllMatch \<Rightarrow> Inr (if AllMatch then Some FirstVal else None))
              else Inr None))
      else Inr None)"

text \<open>
  \<open>AggregateAvailableValues\<close>. Every call of the source builds its builder at the load
  (\<open>SILBuilder B(Inst)\<close>), so everything is created before the load, in the order of
  creation: one builder is passed along. \<open>Address\<close> is \<open>None\<close> for the null value; using
  it then is a failure. The loops over the fields carry \<open>FirstElt\<close>, the field number and
  the values collected so far.
\<close>

function (sequential) AggregateAvailableValues ::
    "SILBuilder \<Rightarrow> SILLocation \<Rightarrow> ty \<Rightarrow> SILValue option \<Rightarrow> AvailableValues \<Rightarrow> nat \<Rightarrow>
       failure + SILBuilder \<times> SILValue"
  and AggregateAvailableValues_fields ::
    "SILBuilder \<Rightarrow> SILLocation \<Rightarrow> (string option \<times> ty) list \<Rightarrow> SILValue option \<Rightarrow>
       AvailableValues \<Rightarrow> nat \<Rightarrow> nat \<Rightarrow> SILValue list \<Rightarrow> failure + SILBuilder \<times> SILValue list"
  and AggregateAvailableValues_props ::
    "SILBuilder \<Rightarrow> SILLocation \<Rightarrow> (string \<times> ty) list \<Rightarrow> SILValue option \<Rightarrow>
       AvailableValues \<Rightarrow> nat \<Rightarrow> SILValue list \<Rightarrow> failure + SILBuilder \<times> SILValue list"
where
  "AggregateAvailableValues B Loc LoadTy Address Values FirstElt =
     (case fully_available Values FirstElt LoadTy of
        Inl e \<Rightarrow> Inl e
      | Inr (Some FirstVal) \<Rightarrow> Inr (B, FirstVal)
      | Inr None \<Rightarrow>
          (case LoadTy of
             TupleTy fs \<Rightarrow>
               (case AggregateAvailableValues_fields B Loc fs Address Values FirstElt 0 [] of
                  Inl e \<Rightarrow> Inl e
                | Inr (B', ResultElts) \<Rightarrow>
                    Inr (fst (createInst B' Loc (TupleInst ResultElts) LoadTy),
                         SILValue (next_inst_id (BFn B')) 0 LoadTy))
           | StructTy n ps \<Rightarrow>
               (case AggregateAvailableValues_props B Loc ps Address Values FirstElt [] of
                  Inl e \<Rightarrow> Inl e
                | Inr (B', ResultElts) \<Rightarrow>
                    Inr (fst (createInst B' Loc (StructInst ResultElts) LoadTy),
                         SILValue (next_inst_id (BFn B')) 0 LoadTy))
           | OtherTy n \<Rightarrow>
               (if length Values \<le> FirstElt then Inl Index_Out_Of_Range
                else
                  (case Values ! FirstElt of
                     None \<Rightarrow>
                       (case Address of
                          None \<Rightarrow> Inl Assertion_Failed
                        | Some A \<Rightarrow>
                            Inr (fst (createInst B Loc (Load A) (vty A)),
                                 SILValue (next_inst_id (BFn B)) 0 (vty A)))
                   | Some (v, k) \<Rightarrow>
                       (case ExtractSubElement B Loc (vty v) v k of
                          Inl e \<Rightarrow> Inl e
                        | Inr (B', EltVal) \<Rightarrow>
                            (if vty EltVal = LoadTy then Inr (B', EltVal)
                             else Inl Assertion_Failed))))))"
| "AggregateAvailableValues_fields B Loc [] Address Values FirstElt EltNo ResultElts =
     Inr (B, ResultElts)"
| "AggregateAvailableValues_fields B Loc ((n, EltTy) # fs) Address Values FirstElt EltNo ResultElts =
     (case anyMissing FirstElt (getNumSubElements EltTy) Values of
        Inl e \<Rightarrow> Inl e
      | Inr missing \<Rightarrow>
          (if missing \<and> Address = None then Inl Assertion_Failed
           else
             (case AggregateAvailableValues
                     (if missing
                      then fst (createInst B Loc (TupleElementAddr (the Address) EltNo) EltTy)
                      else B)
                     Loc EltTy
                     (if missing then Some (SILValue (next_inst_id (BFn B)) 0 EltTy) else None)
                     Values FirstElt of
                Inl e \<Rightarrow> Inl e
              | Inr (B', v) \<Rightarrow>
                  AggregateAvailableValues_fields B' Loc fs Address Values
                    (FirstElt + getNumSubElements EltTy) (Suc EltNo) (ResultElts @ [v]))))"
| "AggregateAvailableValues_props B Loc [] Address Values FirstElt ResultElts =
     Inr (B, ResultElts)"
| "AggregateAvailableValues_props B Loc ((n, EltTy) # ps) Address Values FirstElt ResultElts =
     (case anyMissing FirstElt (getNumSubElements EltTy) Values of
        Inl e \<Rightarrow> Inl e
      | Inr missing \<Rightarrow>
          (if missing \<and> Address = None then Inl Assertion_Failed
           else
             (case AggregateAvailableValues
                     (if missing
                      then fst (createInst B Loc (StructElementAddr (the Address) n) EltTy)
                      else B)
                     Loc EltTy
                     (if missing then Some (SILValue (next_inst_id (BFn B)) 0 EltTy) else None)
                     Values FirstElt of
                Inl e \<Rightarrow> Inl e
              | Inr (B', v) \<Rightarrow>
                  AggregateAvailableValues_props B' Loc ps Address Values
                    (FirstElt + getNumSubElements EltTy) (ResultElts @ [v]))))"
  by pat_completeness auto

termination AggregateAvailableValues
  by (relation "measure (\<lambda>x. case x of
        Inl (B, Loc, LoadTy, Address, Values, FirstElt) \<Rightarrow> size LoadTy
      | Inr (Inl (B, Loc, fs, Address, Values, FirstElt, EltNo, ResultElts)) \<Rightarrow>
          size (TupleTy fs) - 1
      | Inr (Inr (B, Loc, ps, Address, Values, FirstElt, ResultElts)) \<Rightarrow>
          size (StructTy [] ps) - 1)")
    auto

text \<open>The number of instructions of a function.\<close>

definition num_insts :: "SILFunction \<Rightarrow> nat" where
  "num_insts F = sum_list (map (\<lambda>B. length (insts B)) (blocks F))"

lemma num_insts_erase_at:
  assumes "BB < length (blocks F)" and "p < length (block_insts F BB)"
  shows "num_insts (erase_at F BB p) < num_insts F"
proof -
  let ?is = "insts (blocks F ! BB)"
  let ?g = "\<lambda>B. length (insts B)"
  have p: "p < length ?is" using assms by (simp add: block_insts_def)
  have l: "length (take p ?is @ drop (Suc p) ?is) < length ?is" using p by simp
  have m: "map ?g ((blocks F)[BB := (blocks F ! BB)\<lparr>insts := take p ?is @ drop (Suc p) ?is\<rparr>])
      = (map ?g (blocks F))[BB := length ?is - 1]"
    using p by (simp add: map_update min_def)
  have "blocks F ! BB \<in> set (blocks F)" using assms(1) by simp
  then have "length ?is \<in> set (map ?g (blocks F))" by (simp add: image_iff) blast
  then have "length ?is \<le> sum_list (map ?g (blocks F))" by (simp add: member_le_sum_list)
  then have "sum_list ((map ?g (blocks F))[BB := length ?is - 1]) < sum_list (map ?g (blocks F))"
    using assms(1) p by (simp add: sum_list_update)
  then show ?thesis
    using assms(1) unfolding num_insts_def erase_at_def update_block_insts_def
    by (simp add: m)
qed

text \<open>\<open>RemoveDeadAddressingInstructions\<close>: an address projection without uses is erased,
  and the walk goes on with its operand. A pointer that is no instruction (a function
  argument) ends the walk.\<close>

function RemoveDeadAddressingInstructions :: "SILFunction \<Rightarrow> SILValue \<Rightarrow> SILFunction" where
  "RemoveDeadAddressingInstructions F Pointer =
     (if \<not> use_empty F Pointer then F
      else
        (case find_inst F (vdef Pointer) of
           None \<Rightarrow> F
         | Some (BB, p) \<Rightarrow>
             (case inst (block_insts F BB ! p) of
                TupleElementAddr Operand FieldNo \<Rightarrow>
                  RemoveDeadAddressingInstructions (erase_at F BB p) Operand
              | StructElementAddr Operand FieldDecl \<Rightarrow>
                  RemoveDeadAddressingInstructions (erase_at F BB p) Operand
              | _ \<Rightarrow> F)))"
  by pat_completeness auto

termination RemoveDeadAddressingInstructions
proof (relation "measure (\<lambda>(F, Pointer). num_insts F)", goal_cases)
  case 1
  show ?case by simp
next
  case (2 F Pointer x BB p)
  then show ?case using find_inst_Some [of F "vdef Pointer" BB p] num_insts_erase_at by simp
next
  case (3 F Pointer x BB p)
  then show ?case using find_inst_Some [of F "vdef Pointer" BB p] num_insts_erase_at by simp
qed

declare RemoveDeadAddressingInstructions.simps [simp del]

text \<open>\<open>hasEscapedAt\<close>: the box counts as escaped at every instruction when it escapes
  anywhere.\<close>

definition hasEscapedAt :: "ElementPromotion \<Rightarrow> nat \<Rightarrow> bool" where
  "hasEscapedAt EP I = HasAnyEscape EP"

text \<open>
  \<open>promoteLoad\<close>. \<open>RequiredElts.set(FirstElt, FirstElt + n)\<close> asserts that the range is
  inside the bit vector. The check that some value is available is the one the source
  makes in a debug build.
\<close>

definition promoteLoad :: "ElementPromotion \<Rightarrow> nat \<Rightarrow> failure + ElementPromotion" where
  "promoteLoad EP Inst =
     (case find_inst (Fn EP) Inst of
        None \<Rightarrow> Inl Dangling_Instruction
      | Some (BB, p) \<Rightarrow>
          (let I = block_insts (Fn EP) BB ! p in
           (case inst I of
             Load Address \<Rightarrow>
               (if hasEscapedAt EP Inst then Inr EP
                else
                  (let LoadTy = inst_ty I in
                   case ComputeAccessPath (Fn EP) Address (TheMemory EP) of
                     Inl e \<Rightarrow> Inl e
                   | Inr FirstElt \<Rightarrow>
                       (if NumMemorySubElements EP < FirstElt + getNumSubElements LoadTy
                        then Inl Assertion_Failed
                        else
                          (case computeAvailableValues EP Inst
                                  (map (\<lambda>k. FirstElt \<le> k \<and> k < FirstElt + getNumSubElements LoadTy)
                                     [0 ..< NumMemorySubElements EP])
                                  (replicate (NumMemorySubElements EP) None) of
                             Inl e \<Rightarrow> Inl e
                           | Inr (failed, RequiredElts, AvailableValues) \<Rightarrow>
                               (if failed then Inr EP
                                else if \<not> (getNumSubElements LoadTy = 0
                                             \<or> some_available AvailableValues)
                                then Inl Assertion_Failed
                                else
                                  (case AggregateAvailableValues
                                          \<lparr>BFn = Fn EP, InsertBB = BB, InsertPt = p,
                                            InsertedInsts = []\<rparr>
                                          (loc I) LoadTy (Some Address) AvailableValues FirstElt of
                                     Inl e \<Rightarrow> Inl e
                                   | Inr (B, NewVal) \<Rightarrow>
                                       (let old = SILValue Inst 0 LoadTy;
                                            F1 = replaceAllUsesWith (BFn B) old NewVal;
                                            Addr = replace_value old NewVal Address;
                                            F2 = eraseFromParent F1 Inst
                                        in Inr (EP\<lparr>Fn :=
                                                  RemoveDeadAddressingInstructions F2 Addr\<rparr>))))))))
           | _ \<Rightarrow> Inr EP)))"

section \<open>The two phases of the promotion of an element\<close>

fun is_Assign :: "Inst \<Rightarrow> bool" where
  "is_Assign (Assign v a) = True"
| "is_Assign other = False"

text \<open>The number of assign instructions of a function: what the first loop of \<open>doIt\<close>
  uses up.\<close>

definition num_assigns :: "SILFunction \<Rightarrow> nat" where
  "num_assigns F =
     (\<Sum>b<length (blocks F). length (filter (\<lambda>I. is_Assign (inst I)) (block_insts F b)))"

lemma num_assigns_changed_block:
  assumes l: "length (blocks F') = length (blocks F)" and bb: "BB < length (blocks F)"
    and o: "\<forall>b. b \<noteq> BB \<longrightarrow> block_insts F' b = block_insts F b"
  shows "num_assigns F' + length (filter (\<lambda>I. is_Assign (inst I)) (block_insts F BB))
       = num_assigns F + length (filter (\<lambda>I. is_Assign (inst I)) (block_insts F' BB))"
proof -
  let ?c = "\<lambda>F b. length (filter (\<lambda>I. is_Assign (inst I)) (block_insts F b))"
  let ?n = "length (blocks F)"
  have "(\<Sum>b<?n. ?c F' b) = ?c F' BB + (\<Sum>b\<in>{..<?n} - {BB}. ?c F' b)"
    using bb by (simp add: sum.remove)
  moreover have "(\<Sum>b<?n. ?c F b) = ?c F BB + (\<Sum>b\<in>{..<?n} - {BB}. ?c F b)"
    using bb by (simp add: sum.remove)
  moreover have "(\<Sum>b\<in>{..<?n} - {BB}. ?c F' b) = (\<Sum>b\<in>{..<?n} - {BB}. ?c F b)"
    using o by (intro sum.cong) simp_all
  ultimately show ?thesis by (simp add: num_assigns_def l)
qed

lemma LowerAssignInstruction_num_assigns:
  assumes a: "LowerAssignInstruction TL F Inst isInit = Inr (F', new)"
  shows "num_assigns F' < num_assigns F"
proof -
  from a obtain BB p where f: "find_inst F Inst = Some (BB, p)"
    by (auto simp: LowerAssignInstruction_def split: option.splits)
  from a f obtain Src Dest where i: "inst (block_insts F BB ! p) = Assign Src Dest"
    by (cases "inst (block_insts F BB ! p)")
      (simp_all add: LowerAssignInstruction_def LowerAssignInstruction_at_def Let_def)
  have bb: "BB < length (blocks F)" and p: "p < length (block_insts F BB)"
    using find_inst_Some [OF f] by simp_all
  from LowerAssignInstruction_result [OF f i, of TL isInit] a
  have b: "block_insts F' BB = take p (block_insts F BB) @ new @ drop (Suc p) (block_insts F BB)"
    and o: "\<forall>b. b \<noteq> BB \<longrightarrow> block_insts F' b = block_insts F b"
    and k: "map inst new =
         (if isInit \<or> isTrivial (TL (vty Dest)) then [Store Src Dest]
          else [Load Dest, Store Src Dest]
               @ map (\<lambda>op. lifetime_inst op (SILValue (next_inst_id F) 0 (vty Dest)))
                   (destroy_ops (TL (vty Dest))))"
    and lb: "length (blocks F') = length (blocks F)"
    by auto
  let ?A = "\<lambda>I. is_Assign (inst I)"
  have lt: "\<not> is_Assign (lifetime_inst op v)" for op v by (cases op) simp_all
  have "filter is_Assign (map inst new) = []"
    unfolding k by (auto simp: filter_empty_conv lt)
  then have n: "filter ?A new = []"
    by (simp add: filter_map filter_empty_conv comp_def)
  have old: "block_insts F BB = take p (block_insts F BB) @ block_insts F BB ! p
      # drop (Suc p) (block_insts F BB)"
    using p by (simp add: id_take_nth_drop)
  have "length (filter ?A (block_insts F BB))
      = length (filter ?A (take p (block_insts F BB))) + 1
        + length (filter ?A (drop (Suc p) (block_insts F BB)))"
    by (subst old) (simp add: i)
  moreover have "length (filter ?A (block_insts F' BB))
      = length (filter ?A (take p (block_insts F BB)))
        + length (filter ?A (drop (Suc p) (block_insts F BB)))"
    unfolding b by (simp add: n)
  ultimately show ?thesis
    using num_assigns_changed_block [OF lb bb o] by simp
qed

lemma checkDefinitelyInit_keeps:
  "checkDefinitelyInit EP Inst = Inr (EP', DI) \<Longrightarrow>
     Fn EP' = Fn EP \<and> Uses EP' = Uses EP \<and> Diags EP' = Diags EP \<and> HadError EP' = HadError EP
     \<and> TheMemory EP' = TheMemory EP \<and> ElementNumber EP' = ElementNumber EP"
  by (auto simp: checkDefinitelyInit_def Let_def split: option.splits prod.splits if_splits)

lemma diagnoseInitError_keeps:
  "diagnoseInitError EP Inst d = Inr EP' \<Longrightarrow> Fn EP' = Fn EP \<and> Uses EP' = Uses EP"
  by (auto simp: diagnoseInitError_def split: option.splits)

lemma length_filter_update:
  "p < length xs \<Longrightarrow> P y = P (xs ! p) \<Longrightarrow>
     length (filter P (xs[p := y])) = length (filter P xs)"
proof (induction xs arbitrary: p)
  case Nil
  then show ?case by simp
next
  case (Cons x xs)
  then show ?case by (cases p) simp_all
qed

lemma num_assigns_update_at:
  "num_assigns (update_at F BB p (setIsInitializationOfDest b)) = num_assigns F"
proof -
  have s: "is_Assign (inst (setIsInitializationOfDest b I)) = is_Assign (inst I)" for I
    by (cases "inst I") (simp_all add: setIsInitializationOfDest_def)
  have "length (filter (\<lambda>I. is_Assign (inst I))
            (block_insts (update_at F BB p (setIsInitializationOfDest b)) x))
      = length (filter (\<lambda>I. is_Assign (inst I)) (block_insts F x))" for x
    by (simp add: update_at_def block_insts_update_block_insts length_filter_update s)
  then show ?thesis
    by (simp add: num_assigns_def update_at_def length_blocks_update_block_insts)
qed

lemma handleStoreUse_progress:
  assumes h: "handleStoreUse TL EP Inst ps = Inr EP'"
  shows "num_assigns (Fn EP') < num_assigns (Fn EP)
       \<or> (num_assigns (Fn EP') = num_assigns (Fn EP) \<and> length (Uses EP') = length (Uses EP))"
proof -
  from h obtain BB p where f: "find_inst (Fn EP) Inst = Some (BB, p)"
    by (auto simp: handleStoreUse_def split: option.splits)
  let ?I = "block_insts (Fn EP) BB ! p"
  show ?thesis
  proof (cases "\<not> ps \<and> \<not> store_needs_check (inst ?I)")
    case True
    then show ?thesis using h f by (simp add: handleStoreUse_def Let_def)
  next
    case False
    then obtain EP1 DI where c: "checkDefinitelyInit EP Inst = Inr (EP1, DI)"
      using h f by (auto simp: handleStoreUse_def Let_def split: sum.splits)
    note k = checkDefinitelyInit_keeps [OF c]
    show ?thesis
    proof (cases "ps \<and> DI \<noteq> DI_Yes")
      case True
      then have "diagnoseInitError EP1 Inst struct_not_fully_initialized = Inr EP'"
        using h f False c by (simp add: handleStoreUse_def Let_def)
      from diagnoseInitError_keeps [OF this] k show ?thesis by simp
    next
      case nd: False
      show ?thesis
      proof (cases "DI = DI_Partial")
        case True
        then have "diagnoseInitError EP1 Inst variable_initialized_on_some_paths = Inr EP'"
          using h f False c nd by (simp add: handleStoreUse_def Let_def)
        from diagnoseInitError_keeps [OF this] k show ?thesis by simp
      next
        case np: False
        have r: "(case inst ?I of
                    CopyAddr s d t i \<Rightarrow>
                      Inr (EP1\<lparr>Fn := update_at (Fn EP1) BB p (setIsInitializationOfDest (DI = DI_No))\<rparr>)
                  | StoreWeak v a i \<Rightarrow>
                      Inr (EP1\<lparr>Fn := update_at (Fn EP1) BB p (setIsInitializationOfDest (DI = DI_No))\<rparr>)
                  | Assign v a \<Rightarrow>
                      (case LowerAssignInstruction TL (Fn EP1) Inst (DI = DI_No) of
                         Inl e \<Rightarrow> Inl e
                       | Inr (F', Inserted) \<Rightarrow>
                           (let (NLU, U) = track_inserted Inserted (NonLoadUses EP1 - {Inst}, Uses EP1)
                            in Inr (EP1\<lparr>Fn := F', NonLoadUses := NLU, Uses := U\<rparr>)))
                  | _ \<Rightarrow> Inr EP1) = Inr EP'"
          using h f False c nd np by (simp add: handleStoreUse_def Let_def)
        show ?thesis
        proof (cases "inst ?I")
          case (Assign v a)
          then obtain F' Inserted where
            l: "LowerAssignInstruction TL (Fn EP1) Inst (DI = DI_No) = Inr (F', Inserted)"
            and e: "Fn EP' = F'"
            using r by (auto split: sum.splits prod.splits)
          from LowerAssignInstruction_num_assigns [OF l] e k show ?thesis by simp
        next
          case (CopyAddr s d t i)
          then show ?thesis using r k by (auto simp: num_assigns_update_at)
        next
          case (StoreWeak v a i)
          then show ?thesis using r k by (auto simp: num_assigns_update_at)
        qed (use r k in auto)
      qed
    qed
  qed
qed

lemma handle_use_progress:
  assumes h: "handle_use TL EP Inst k = Inr EP'"
  shows "num_assigns (Fn EP') < num_assigns (Fn EP)
       \<or> (num_assigns (Fn EP') = num_assigns (Fn EP) \<and> length (Uses EP') = length (Uses EP))"
proof (cases k)
  case Load_Use
  then show ?thesis
    using h checkDefinitelyInit_keeps diagnoseInitError_keeps
    by (fastforce simp: handleLoadUse_def split: sum.splits if_splits)
next
  case Store_Use
  then show ?thesis using h handleStoreUse_progress by simp
next
  case PartialStore_Use
  then show ?thesis using h handleStoreUse_progress by simp
next
  case InOutUse
  then show ?thesis
    using h checkDefinitelyInit_keeps diagnoseInitError_keeps
    by (fastforce simp: handleInOutUse_def split: sum.splits if_splits)
next
  case Escape_Use
  then show ?thesis
    using h checkDefinitelyInit_keeps diagnoseInitError_keeps
    by (fastforce simp: handleEscape_def split: sum.splits if_splits option.splits)
next
  case Release_Use
  then show ?thesis
    using h checkDefinitelyInit_keeps diagnoseInitError_keeps
    by (fastforce simp: handleRelease_def split: sum.splits if_splits)
qed

text \<open>
  The first loop of \<open>doIt\<close>, from index \<open>i\<close> on. The list of uses is read anew at every
  step: handling a use may append to it. The loop of the source runs while
  \<open>i != Uses.size()\<close>; it starts at 0 and the list never shrinks, so that is \<open>i < size\<close>.
  The result tells whether \<open>doIt\<close> has returned from inside the loop
  (\<open>if (HadError) return\<close>).
\<close>

function doIt_phase1 ::
  "(ty \<Rightarrow> TypeLowering) \<Rightarrow> ElementPromotion \<Rightarrow> nat \<Rightarrow> failure + ElementPromotion \<times> bool"
where
  "doIt_phase1 TL EP i =
     (if i < length (Uses EP) then
        (case Uses EP ! i of
           (None, k) \<Rightarrow> doIt_phase1 TL EP (Suc i)
         | (Some Inst, k) \<Rightarrow>
             (case handle_use TL EP Inst k of
                Inl e \<Rightarrow> Inl e
              | Inr EP' \<Rightarrow>
                  (if HadError EP' then Inr (EP', True) else doIt_phase1 TL EP' (Suc i))))
      else Inr (EP, False))"
  by pat_completeness auto

termination doIt_phase1
proof (relation "inv_image (less_than <*lex*> less_than)
    (\<lambda>(TL, EP, i). (num_assigns (Fn EP), length (Uses EP) - i))", goal_cases)
  case 1
  show ?case by (intro wf_inv_image wf_lex_prod wf_less_than)
next
  case (2 TL EP i x k)
  then show ?case by auto
next
  case (3 TL EP i x k Inst EP')
  from handle_use_progress [OF 3(4)] 3(1) show ?case by auto
qed

declare doIt_phase1.simps [simp del]

lemma promoteLoad_keeps:
  "promoteLoad EP Inst = Inr EP' \<Longrightarrow>
     Uses EP' = Uses EP \<and> Diags EP' = Diags EP \<and> HadError EP' = HadError EP"
proof -
  assume a: "promoteLoad EP Inst = Inr EP'"
  then obtain BB p where f: "find_inst (Fn EP) Inst = Some (BB, p)"
    by (auto simp: promoteLoad_def split: option.splits)
  show ?thesis
  proof (cases "inst (block_insts (Fn EP) BB ! p)")
    case (Load Address)
    then show ?thesis
      using a f
      by (auto simp: promoteLoad_def Let_def split: sum.splits if_splits prod.splits)
  qed (use a f in \<open>simp_all add: promoteLoad_def Let_def\<close>)
qed

text \<open>The second loop of \<open>doIt\<close>: the loads are promoted.\<close>

function doIt_phase2 :: "ElementPromotion \<Rightarrow> nat \<Rightarrow> failure + ElementPromotion" where
  "doIt_phase2 EP i =
     (if i < length (Uses EP) then
        (case Uses EP ! i of
           (Some Inst, Load_Use) \<Rightarrow>
             (case promoteLoad EP Inst of
                Inl e \<Rightarrow> Inl e
              | Inr EP' \<Rightarrow> doIt_phase2 EP' (Suc i))
         | _ \<Rightarrow> doIt_phase2 EP (Suc i))
      else Inr EP)"
  by pat_completeness auto

termination doIt_phase2
proof (relation "measure (\<lambda>(EP, i). length (Uses EP) - i)", goal_cases)
  case 1
  show ?case by simp
next
  case (3 EP i x k Inst EP')
  then show ?case using promoteLoad_keeps by fastforce
qed auto

declare doIt_phase2.simps [simp del]

definition doIt :: "(ty \<Rightarrow> TypeLowering) \<Rightarrow> ElementPromotion \<Rightarrow> failure + ElementPromotion" where
  "doIt TL EP =
     (case doIt_phase1 TL EP 0 of
        Inl e \<Rightarrow> Inl e
      | Inr (EP', returned) \<Rightarrow> (if returned then Inr EP' else doIt_phase2 EP' 0))"

section \<open>The collector of the uses\<close>

text \<open>The state of \<open>ElementUseCollector\<close>: the function that is rewritten, and the
  vector of the use lists of the elements. The two flags \<open>InStructSubElement\<close> and
  \<open>InEnumSubElement\<close> are saved and restored around every recursive call in the source:
  they are arguments here.\<close>

record collector =
  CFn :: SILFunction
  CUses :: "ElementUses list"

text \<open>\<open>Uses[Elt].push_back\<close>; an index outside the vector fails.\<close>

definition push_use :: "collector \<Rightarrow> nat \<Rightarrow> nat \<Rightarrow> UseKind \<Rightarrow> failure + collector" where
  "push_use C Elt User Kind =
     (if Elt < length (CUses C)
      then Inr (C\<lparr>CUses := (CUses C)[Elt := CUses C ! Elt @ [(Some User, Kind)]]\<rparr>)
      else Inl Index_Out_Of_Range)"

fun push_uses :: "collector \<Rightarrow> nat list \<Rightarrow> nat \<Rightarrow> UseKind \<Rightarrow> failure + collector" where
  "push_uses C [] User Kind = Inr C"
| "push_uses C (Elt # Elts) User Kind =
     (case push_use C Elt User Kind of
        Inl e \<Rightarrow> Inl e
      | Inr C' \<Rightarrow> push_uses C' Elts User Kind)"

definition addElementUses ::
  "bool \<Rightarrow> bool \<Rightarrow> collector \<Rightarrow> nat \<Rightarrow> ty \<Rightarrow> nat \<Rightarrow> UseKind \<Rightarrow> failure + collector" where
  "addElementUses InStructSubElement InEnumSubElement C BaseElt UseTy User Kind =
     push_uses C
       (map (\<lambda>i. BaseElt + i)
          [0 ..< (if \<not> InStructSubElement \<and> \<not> InEnumSubElement
                  then getTupleElementCount UseTy else 1)])
       User Kind"

fun is_TupleTy :: "ty \<Rightarrow> bool" where
  "is_TupleTy (TupleTy fs) = True"
| "is_TupleTy other = False"

text \<open>What \<open>collectUses\<close> does with one use of the pointer, by the kind of the user and the
  operand number of the use.\<close>

datatype use_action =
    Element_Address
  | To_Scalarize
  | Record_Use UseKind
  | Record_Element_Uses UseKind
  | Enter_EnumData
  | Enter_InitExistential

definition store_kind :: "bool \<Rightarrow> UseKind" where
  "store_kind InStructSubElement = (if InStructSubElement then PartialStore_Use else Store_Use)"

fun classify_use :: "bool \<Rightarrow> bool \<Rightarrow> ty \<Rightarrow> Inst \<Rightarrow> nat \<Rightarrow> failure + use_action" where
  "classify_use S E PointeeType (TupleElementAddr a n) opno = Inr Element_Address"
| "classify_use S E PointeeType (StructElementAddr a f) opno = Inr Element_Address"
| "classify_use S E PointeeType (Load a) opno =
     Inr (if is_TupleTy PointeeType then To_Scalarize else Record_Use Load_Use)"
| "classify_use S E PointeeType (LoadWeak a) opno = Inr (Record_Use Load_Use)"
| "classify_use S E PointeeType (Store v a) opno =
     (if opno = 1
      then Inr (if is_TupleTy PointeeType then To_Scalarize else Record_Use (store_kind S))
      else Inr (Record_Element_Uses Escape_Use))"
| "classify_use S E PointeeType (Assign v a) opno =
     (if opno = 1
      then Inr (if is_TupleTy PointeeType then To_Scalarize else Record_Use (store_kind S))
      else Inr (Record_Element_Uses Escape_Use))"
| "classify_use S E PointeeType (StoreWeak v a i) opno =
     (if opno = 1
      then (if is_TupleTy PointeeType then Inl Assertion_Failed
            else Inr (Record_Use (store_kind S)))
      else Inr (Record_Element_Uses Escape_Use))"
| "classify_use S E PointeeType (CopyAddr s d t i) opno =
     Inr (Record_Element_Uses (if opno = 0 then Load_Use else store_kind S))"
| "classify_use S E PointeeType (InitializeVar a) opno =
     Inr (Record_Element_Uses (store_kind S))"
| "classify_use S E PointeeType (Apply c as ps) opno =
     (if opno = 0 \<or> length ps \<le> opno - 1 then Inl Index_Out_Of_Range
      else
        (case ps ! (opno - 1) of
           Indirect_Result \<Rightarrow>
             (if S then Inl Assertion_Failed else Inr (Record_Element_Uses Store_Use))
         | Indirect_InOut \<Rightarrow> Inr (Record_Element_Uses InOutUse)
         | Other_Convention \<Rightarrow> Inr (Record_Element_Uses Escape_Use)))"
| "classify_use S E PointeeType (EnumDataAddr a) opno =
     (if S \<or> E then Inl Assertion_Failed else Inr Enter_EnumData)"
| "classify_use S E PointeeType (InitExistential a) opno =
     (if S \<or> E then Inl Assertion_Failed else Inr Enter_InitExistential)"
| "classify_use S E PointeeType (InjectEnumAddr a) opno =
     (if S then Inl Assertion_Failed else Inr (Record_Use Store_Use))"
| "classify_use S E PointeeType (UpcastExistential s d) opno =
     Inr (Record_Use (if opno = 1 then Store_Use else Load_Use))"
| "classify_use S E PointeeType (ProjectExistential a) opno = Inr (Record_Use Load_Use)"
| "classify_use S E PointeeType (ProtocolMethod a) opno = Inr (Record_Use Load_Use)"
| "classify_use S E PointeeType other opno = Inr (Record_Element_Uses Escape_Use)"

text \<open>The loop of \<open>collectElementUses\<close> over the tuple fields before \<open>FieldNo\<close>.\<close>

fun tuple_count_before :: "(string option \<times> ty) list \<Rightarrow> nat \<Rightarrow> nat option" where
  "tuple_count_before fs 0 = Some 0"
| "tuple_count_before [] (Suc k) = None"
| "tuple_count_before ((n, t) # fs) (Suc k) =
     map_option (\<lambda>s. getTupleElementCount t + s) (tuple_count_before fs k)"

text \<open>\<open>collectElementUses\<close> up to its recursive call: the flag \<open>InStructSubElement\<close>, the
  pointer and the base element that \<open>collectUses\<close> is called with.\<close>

definition element_target ::
  "bool \<Rightarrow> SILFunction \<Rightarrow> nat \<Rightarrow> nat \<Rightarrow> failure + bool \<times> SILValue \<times> nat" where
  "element_target InStructSubElement F ElementPtr BaseElt =
     (case get_inst F ElementPtr of
        None \<Rightarrow> Inl Dangling_Instruction
      | Some I \<Rightarrow>
          (case inst I of
             StructElementAddr a f \<Rightarrow> Inr (True, SILValue ElementPtr 0 (inst_ty I), BaseElt)
           | TupleElementAddr a FieldNo \<Rightarrow>
               (if InStructSubElement
                then Inr (InStructSubElement, SILValue ElementPtr 0 (inst_ty I), BaseElt)
                else
                  (case vty a of
                     TupleTy fs \<Rightarrow>
                       (case tuple_count_before fs FieldNo of
                          None \<Rightarrow> Inl Index_Out_Of_Range
                        | Some k \<Rightarrow>
                            Inr (InStructSubElement, SILValue ElementPtr 0 (inst_ty I),
                                 BaseElt + k))
                   | _ \<Rightarrow> Inl Assertion_Failed))
           | _ \<Rightarrow> Inl Assertion_Failed))"

subsection \<open>Scalarization\<close>

fun create_all :: "SILBuilder \<Rightarrow> SILLocation \<Rightarrow> (Inst \<times> ty) list \<Rightarrow> SILBuilder" where
  "create_all B l [] = B"
| "create_all B l ((i, t) # its) = create_all (fst (createInst B l i t)) l its"

fun tuple_element_addrs :: "SILValue \<Rightarrow> (string option \<times> ty) list \<Rightarrow> nat \<Rightarrow> (Inst \<times> ty) list" where
  "tuple_element_addrs Pointer [] k = []"
| "tuple_element_addrs Pointer ((n, t) # fs) k =
     (TupleElementAddr Pointer k, t) # tuple_element_addrs Pointer fs (Suc k)"

text \<open>\<open>getScalarizedElementAddresses\<close>: the builder stands right behind the instruction
  that defines the pointer. The result is the function and the new address
  instructions.\<close>

definition getScalarizedElementAddresses ::
  "SILFunction \<Rightarrow> SILValue \<Rightarrow> failure + SILFunction \<times> SILInstruction list" where
  "getScalarizedElementAddresses F Pointer =
     (case find_inst F (vdef Pointer) of
        None \<Rightarrow> Inl Assertion_Failed
      | Some (BB, p) \<Rightarrow>
          (let l = loc (block_insts F BB ! p);
               B = \<lparr>BFn = F, InsertBB = BB, InsertPt = Suc p, InsertedInsts = []\<rparr>
           in case vty Pointer of
                TupleTy fs \<Rightarrow>
                  (let B' = create_all B l (tuple_element_addrs Pointer fs 0)
                   in Inr (BFn B', InsertedInsts B'))
              | StructTy n ps \<Rightarrow>
                  (let B' = create_all B l (map (\<lambda>(f, t). (StructElementAddr Pointer f, t)) ps)
                   in Inr (BFn B', InsertedInsts B'))
              | OtherTy n \<Rightarrow> Inl Assertion_Failed))"

text \<open>The value of an instruction: its result 0.\<close>

definition result_value :: "SILInstruction \<Rightarrow> SILValue" where
  "result_value I = SILValue (inst_id I) 0 (inst_ty I)"

fun tuple_extracts :: "SILValue \<Rightarrow> (string option \<times> ty) list \<Rightarrow> nat \<Rightarrow> (Inst \<times> ty) list" where
  "tuple_extracts V [] k = []"
| "tuple_extracts V ((n, t) # fs) k = (TupleExtract V k, t) # tuple_extracts V fs (Suc k)"

text \<open>\<open>getScalarizedElements\<close>: the operands of a tuple or struct instruction, or new
  extracts. The result is the builder and the element values.\<close>

definition getScalarizedElements ::
  "SILBuilder \<Rightarrow> SILLocation \<Rightarrow> SILValue \<Rightarrow> failure + SILBuilder \<times> SILValue list" where
  "getScalarizedElements B Loc V =
     (case vty V of
        TupleTy fs \<Rightarrow>
          (case map_option inst (get_inst (BFn B) (vdef V)) of
             Some (TupleInst vs) \<Rightarrow> Inr (B, vs)
           | _ \<Rightarrow>
               (let B' = create_all (B\<lparr>InsertedInsts := []\<rparr>) Loc (tuple_extracts V fs 0)
                in Inr (B'\<lparr>InsertedInsts := InsertedInsts B @ InsertedInsts B'\<rparr>,
                        map result_value (InsertedInsts B'))))
      | StructTy n ps \<Rightarrow>
          (case map_option inst (get_inst (BFn B) (vdef V)) of
             Some (StructInst vs) \<Rightarrow> Inr (B, vs)
           | _ \<Rightarrow>
               (let B' = create_all (B\<lparr>InsertedInsts := []\<rparr>) Loc
                           (map (\<lambda>(f, t). (StructExtract V f, t)) ps)
                in Inr (B'\<lparr>InsertedInsts := InsertedInsts B @ InsertedInsts B'\<rparr>,
                        map result_value (InsertedInsts B'))))
      | OtherTy n \<Rightarrow> Inl Assertion_Failed)"

text \<open>The loops that create one assign or store per element address. \<open>ElementTmps[i]\<close>
  fails where there are fewer values than addresses.\<close>

fun create_element_stores ::
  "(SILValue \<Rightarrow> SILValue \<Rightarrow> Inst) \<Rightarrow> SILBuilder \<Rightarrow> SILLocation \<Rightarrow> SILValue list \<Rightarrow>
     SILInstruction list \<Rightarrow> failure + SILBuilder"
where
  "create_element_stores mk B l ElementTmps [] = Inr B"
| "create_element_stores mk B l [] (A # ElementAddrs) = Inl Index_Out_Of_Range"
| "create_element_stores mk B l (v # ElementTmps) (A # ElementAddrs) =
     create_element_stores mk (fst (createInst B l (mk v (result_value A)) no_result_ty)) l
       ElementTmps ElementAddrs"

text \<open>
  The body of the loop over \<open>UsesToScalarize\<close>, for one user: a load becomes the loads of
  the elements and a tuple or struct of them, which replaces it; an assign or store
  becomes one per element. The builder stands at the user, so the user is the
  instruction at the insertion point when it is erased.
\<close>

definition scalarize_user ::
  "SILFunction \<Rightarrow> SILInstruction list \<Rightarrow> nat \<Rightarrow> failure + SILFunction" where
  "scalarize_user F ElementAddrs User =
     (case find_inst F User of
        None \<Rightarrow> Inl Dangling_Instruction
      | Some (BB, p) \<Rightarrow>
          (let I = block_insts F BB ! p;
               B = \<lparr>BFn = F, InsertBB = BB, InsertPt = p, InsertedInsts = []\<rparr>
           in case inst I of
                Load a \<Rightarrow>
                  (let B1 = create_all B (loc I)
                              (map (\<lambda>A. (Load (result_value A), inst_ty A)) ElementAddrs);
                       ElementTmps = map result_value (InsertedInsts B1);
                       (B2, r) = createInst B1 (loc I)
                                   (if is_TupleTy (inst_ty I) then TupleInst ElementTmps
                                    else StructInst ElementTmps)
                                   (inst_ty I);
                       F1 = replaceAllUsesWith (BFn B2) (SILValue User 0 (inst_ty I))
                              (SILValue r 0 (inst_ty I))
                   in Inr (erase_at F1 (InsertBB B2) (InsertPt B2)))
              | Assign v a \<Rightarrow>
                  (case getScalarizedElements B (loc I) v of
                     Inl e \<Rightarrow> Inl e
                   | Inr (B1, ElementTmps) \<Rightarrow>
                       (case create_element_stores Assign B1 (loc I) ElementTmps ElementAddrs of
                          Inl e \<Rightarrow> Inl e
                        | Inr B2 \<Rightarrow> Inr (erase_at (BFn B2) (InsertBB B2) (InsertPt B2))))
              | Store v a \<Rightarrow>
                  (case getScalarizedElements B (loc I) v of
                     Inl e \<Rightarrow> Inl e
                   | Inr (B1, ElementTmps) \<Rightarrow>
                       (case create_element_stores Store B1 (loc I) ElementTmps ElementAddrs of
                          Inl e \<Rightarrow> Inl e
                        | Inr B2 \<Rightarrow> Inr (erase_at (BFn B2) (InsertBB B2) (InsertPt B2))))
              | _ \<Rightarrow> Inl Assertion_Failed))"

fun scalarize_users ::
  "SILFunction \<Rightarrow> SILInstruction list \<Rightarrow> nat list \<Rightarrow> failure + SILFunction" where
  "scalarize_users F ElementAddrs [] = Inr F"
| "scalarize_users F ElementAddrs (User # Users) =
     (case scalarize_user F ElementAddrs User of
        Inl e \<Rightarrow> Inl e
      | Inr F' \<Rightarrow> scalarize_users F' ElementAddrs Users)"

text \<open>The second part of \<open>collectUses\<close> up to its recursive calls: the element addresses
  are created and the users are scalarized.\<close>

definition scalarize_all ::
  "SILFunction \<Rightarrow> SILValue \<Rightarrow> nat list \<Rightarrow> failure + SILFunction \<times> SILInstruction list" where
  "scalarize_all F Pointer UsesToScalarize =
     (case getScalarizedElementAddresses F Pointer of
        Inl e \<Rightarrow> Inl e
      | Inr (F1, ElementAddrs) \<Rightarrow>
          (case scalarize_users F1 ElementAddrs UsesToScalarize of
             Inl e \<Rightarrow> Inl e
           | Inr F2 \<Rightarrow> Inr (F2, ElementAddrs)))"

subsection \<open>The walk\<close>

text \<open>What \<open>collectUses\<close> does for a use that needs no recursive call: the use is recorded
  or the user is put on the list of the uses to scalarize.\<close>

definition record_use ::
  "bool \<Rightarrow> bool \<Rightarrow> collector \<times> nat list \<Rightarrow> nat \<Rightarrow> ty \<Rightarrow> nat \<Rightarrow> use_action \<Rightarrow>
     failure + collector \<times> nat list"
where
  "record_use S E st BaseElt PointeeType User act =
     (case act of
        To_Scalarize \<Rightarrow> Inr (fst st, snd st @ [User])
      | Record_Use Kind \<Rightarrow>
          (case push_use (fst st) BaseElt User Kind of
             Inl e \<Rightarrow> Inl e
           | Inr C \<Rightarrow> Inr (C, snd st))
      | Record_Element_Uses Kind \<Rightarrow>
          (case addElementUses S E (fst st) BaseElt PointeeType User Kind of
             Inl e \<Rightarrow> Inl e
           | Inr C \<Rightarrow> Inr (C, snd st))
      | Enter_InitExistential \<Rightarrow>
          (case push_use (fst st) BaseElt User Store_Use of
             Inl e \<Rightarrow> Inl e
           | Inr C \<Rightarrow> Inr (C, snd st))
      | _ \<Rightarrow> Inr st)"

text \<open>The recursive call that \<open>collectUses\<close> makes for a use, if it makes one: the two
  flags, the pointer and the base element.\<close>

definition recursive_target ::
  "bool \<Rightarrow> bool \<Rightarrow> SILFunction \<Rightarrow> SILInstruction \<Rightarrow> nat \<Rightarrow> use_action \<Rightarrow>
     failure + (bool \<times> bool \<times> SILValue \<times> nat) option"
where
  "recursive_target S E F User BaseElt act =
     (case act of
        Element_Address \<Rightarrow>
          (case element_target S F (inst_id User) BaseElt of
             Inl e \<Rightarrow> Inl e
           | Inr (S', Pointer, Base) \<Rightarrow> Inr (Some (S', E, Pointer, Base)))
      | Enter_EnumData \<Rightarrow> Inr (Some (S, True, result_value User, BaseElt))
      | Enter_InitExistential \<Rightarrow> Inr (Some (True, E, result_value User, BaseElt))
      | _ \<Rightarrow> Inr None)"

text \<open>
  \<open>collectUses\<close>. The walk follows the uses of addresses, and in a function whose
  instructions use each other in a circle it never ends: it is modelled with fuel, the
  number of nested calls that are allowed, and the result is \<open>None\<close> when the fuel runs
  out. The loop over the uses of the pointer works on the use list as it is when the
  loop starts: what the nested calls rewrite are users of the projected addresses, not
  users of the pointer. \<open>collect_element_addrs\<close> is the final loop over the new element
  addresses.
\<close>

function (sequential) collectUses ::
    "nat \<Rightarrow> bool \<Rightarrow> bool \<Rightarrow> collector \<Rightarrow> SILValue \<Rightarrow> nat \<Rightarrow> (failure + collector) option"
  and collect_uses_loop ::
    "nat \<Rightarrow> bool \<Rightarrow> bool \<Rightarrow> collector \<times> nat list \<Rightarrow> SILValue \<Rightarrow> nat \<Rightarrow> (nat \<times> nat) list \<Rightarrow>
       (failure + collector \<times> nat list) option"
  and collect_element_addrs ::
    "nat \<Rightarrow> bool \<Rightarrow> bool \<Rightarrow> collector \<Rightarrow> SILInstruction list \<Rightarrow> nat \<Rightarrow>
       (failure + collector) option"
where
  "collectUses 0 S E C Pointer BaseElt = None"
| "collectUses (Suc fuel) S E C Pointer BaseElt =
     (case collect_uses_loop fuel S E (C, []) Pointer BaseElt (getUses (CFn C) Pointer) of
        None \<Rightarrow> None
      | Some (Inl e) \<Rightarrow> Some (Inl e)
      | Some (Inr (C1, UsesToScalarize)) \<Rightarrow>
          (if UsesToScalarize = [] then Some (Inr C1)
           else
             (case scalarize_all (CFn C1) Pointer UsesToScalarize of
                Inl e \<Rightarrow> Some (Inl e)
              | Inr (F2, ElementAddrs) \<Rightarrow>
                  collect_element_addrs fuel S E (C1\<lparr>CFn := F2\<rparr>) ElementAddrs BaseElt)))"
| "collect_uses_loop fuel S E st Pointer BaseElt [] = Some (Inr st)"
| "collect_uses_loop fuel S E st Pointer BaseElt ((User, opno) # rest) =
     (case get_inst (CFn (fst st)) User of
        None \<Rightarrow> Some (Inl Dangling_Instruction)
      | Some I \<Rightarrow>
          (case classify_use S E (vty Pointer) (inst I) opno of
             Inl e \<Rightarrow> Some (Inl e)
           | Inr act \<Rightarrow>
               (case record_use S E st BaseElt (vty Pointer) User act of
                  Inl e \<Rightarrow> Some (Inl e)
                | Inr st1 \<Rightarrow>
                    (case recursive_target S E (CFn (fst st1)) I BaseElt act of
                       Inl e \<Rightarrow> Some (Inl e)
                     | Inr None \<Rightarrow> collect_uses_loop fuel S E st1 Pointer BaseElt rest
                     | Inr (Some (S', E', Pointer', Base')) \<Rightarrow>
                         (case collectUses fuel S' E' (fst st1) Pointer' Base' of
                            None \<Rightarrow> None
                          | Some (Inl e) \<Rightarrow> Some (Inl e)
                          | Some (Inr C2) \<Rightarrow>
                              collect_uses_loop fuel S E (C2, snd st1) Pointer BaseElt rest)))))"
| "collect_element_addrs fuel S E C [] BaseElt = Some (Inr C)"
| "collect_element_addrs fuel S E C (EltPtr # ElementAddrs) BaseElt =
     (case element_target S (CFn C) (inst_id EltPtr) BaseElt of
        Inl e \<Rightarrow> Some (Inl e)
      | Inr (S', Pointer', Base') \<Rightarrow>
          (case collectUses fuel S' E C Pointer' Base' of
             None \<Rightarrow> None
           | Some (Inl e) \<Rightarrow> Some (Inl e)
           | Some (Inr C2) \<Rightarrow> collect_element_addrs fuel S E C2 ElementAddrs BaseElt))"
  by pat_completeness auto

termination collectUses
  by (relation "inv_image (less_than <*lex*> less_than <*lex*> less_than)
        (\<lambda>x. case x of
           Inl (fuel, S, E, C, Pointer, BaseElt) \<Rightarrow> (fuel, 0, 0)
         | Inr (Inl (fuel, S, E, st, Pointer, BaseElt, uses)) \<Rightarrow> (fuel, Suc 0, length uses)
         | Inr (Inr (fuel, S, E, C, ElementAddrs, BaseElt)) \<Rightarrow>
             (fuel, Suc 0, length ElementAddrs))")
    auto

declare collectUses.simps [simp del] collect_uses_loop.simps [simp del]
  collect_element_addrs.simps [simp del]

section \<open>The top level driver\<close>

text \<open>The pass works on a function and on what the diagnostic engine holds.\<close>

type_synonym pass_state = "SILFunction \<times> Diagnostic list"

fun is_StrongRelease :: "Inst \<Rightarrow> bool" where
  "is_StrongRelease (StrongRelease v) = True"
| "is_StrongRelease other = False"

fun is_release_or_dealloc :: "Inst \<Rightarrow> bool" where
  "is_release_or_dealloc (StrongRelease v) = True"
| "is_release_or_dealloc (DeallocStack v) = True"
| "is_release_or_dealloc other = False"

text \<open>The loop over the uses of the retain count result: a user that is a release is
  put on the use list of every element.\<close>

definition user_is :: "(Inst \<Rightarrow> bool) \<Rightarrow> SILFunction \<Rightarrow> nat \<Rightarrow> bool" where
  "user_is P F User = (case get_inst F User of None \<Rightarrow> False | Some I \<Rightarrow> P (inst I))"

fun collect_releases ::
  "(Inst \<Rightarrow> bool) \<Rightarrow> SILFunction \<Rightarrow> (nat \<times> nat) list \<Rightarrow> ElementUses list \<Rightarrow> ElementUses list"
where
  "collect_releases is_release F [] U = U"
| "collect_releases is_release F ((User, opno) # rest) U =
     collect_releases is_release F rest
       (if user_is is_release F User
        then map (\<lambda>UseArray. UseArray @ [(Some User, Release_Use)]) U else U)"

text \<open>The loop \<open>for (auto &Elt : Uses) ElementPromotion(Memory, EltNo++, Elt).doIt()\<close>.\<close>

fun promote_elements ::
  "(ty \<Rightarrow> TypeLowering) \<Rightarrow> pass_state \<Rightarrow> nat \<Rightarrow> nat \<Rightarrow> ElementUses list \<Rightarrow>
     failure + pass_state"
where
  "promote_elements TL st Memory EltNo [] = Inr st"
| "promote_elements TL st Memory EltNo (Elt # Elts) =
     (case new_ElementPromotion (fst st) (snd st) Memory EltNo Elt of
        Inl e \<Rightarrow> Inl e
      | Inr EP \<Rightarrow>
          (case doIt TL EP of
             Inl e \<Rightarrow> Inl e
           | Inr EP' \<Rightarrow> promote_elements TL (Fn EP', Diags EP') Memory (Suc EltNo) Elts))"

text \<open>What \<open>processAllocBox\<close>, \<open>processAllocStack\<close> and \<open>processMarkUninitialized\<close> share:
  the uses of the address (result \<open>addr\<close> of the instruction) are collected into an array
  with one entry per tuple element of the type, the releases are collected from the
  uses of result 0 (when the instruction has a retain count result), and every element
  is processed. The type of the instruction is the type of the memory.\<close>

definition process_memory ::
  "nat \<Rightarrow> (ty \<Rightarrow> TypeLowering) \<Rightarrow> pass_state \<Rightarrow> nat \<Rightarrow> nat \<Rightarrow> (Inst \<Rightarrow> bool) option \<Rightarrow>
     (failure + pass_state) option"
where
  "process_memory fuel TL st Memory addr releases =
     (case get_inst (fst st) Memory of
        None \<Rightarrow> Some (Inl Dangling_Instruction)
      | Some I \<Rightarrow>
          (case collectUses fuel False False
                  \<lparr>CFn = fst st, CUses = replicate (getTupleElementCount (inst_ty I)) []\<rparr>
                  (SILValue Memory addr (inst_ty I)) 0 of
             None \<Rightarrow> None
           | Some (Inl e) \<Rightarrow> Some (Inl e)
           | Some (Inr C) \<Rightarrow>
               Some (promote_elements TL (CFn C, snd st) Memory 0
                       (case releases of
                          None \<Rightarrow> CUses C
                        | Some is_release \<Rightarrow>
                            collect_releases is_release (CFn C)
                              (getUses (CFn C) (SILValue Memory 0 (inst_ty I))) (CUses C)))))"

definition processAllocBox ::
  "nat \<Rightarrow> (ty \<Rightarrow> TypeLowering) \<Rightarrow> pass_state \<Rightarrow> nat \<Rightarrow> (failure + pass_state) option" where
  "processAllocBox fuel TL st ABI = process_memory fuel TL st ABI 1 (Some is_StrongRelease)"

definition processAllocStack ::
  "nat \<Rightarrow> (ty \<Rightarrow> TypeLowering) \<Rightarrow> pass_state \<Rightarrow> nat \<Rightarrow> (failure + pass_state) option" where
  "processAllocStack fuel TL st ASI = process_memory fuel TL st ASI 1 (Some is_release_or_dealloc)"

definition processMarkUninitialized ::
  "nat \<Rightarrow> (ty \<Rightarrow> TypeLowering) \<Rightarrow> pass_state \<Rightarrow> nat \<Rightarrow> (failure + pass_state) option" where
  "processMarkUninitialized fuel TL st MUI = process_memory fuel TL st MUI 0 None"

text \<open>\<open>use_empty\<close> of an instruction: no result of it is used. An instruction has the
  results 0 and 1 at most.\<close>

definition inst_use_empty :: "SILFunction \<Rightarrow> SILInstruction \<Rightarrow> bool" where
  "inst_use_empty F I =
     (use_empty F (SILValue (inst_id I) 0 (inst_ty I))
      \<and> use_empty F (SILValue (inst_id I) 1 (inst_ty I)))"

text \<open>
  The loop of \<open>checkDefiniteInitialization\<close> over one block. The iterator \<open>I\<close> points to an
  instruction, and processing the instruction puts instructions into the block and
  takes instructions out of it: \<open>++I\<close> is the position behind the place where the
  instruction stands afterwards. The loop is bounded by \<open>steps\<close>, and the result is \<open>None\<close>
  when the bound is reached.
\<close>

fun check_block ::
  "nat \<Rightarrow> nat \<Rightarrow> (ty \<Rightarrow> TypeLowering) \<Rightarrow> pass_state \<Rightarrow> nat \<Rightarrow> nat \<Rightarrow>
     (failure + pass_state) option"
where
  "check_block 0 fuel TL st BB p = None"
| "check_block (Suc steps) fuel TL st BB p =
     (if length (block_insts (fst st) BB) \<le> p then Some (Inr st)
      else
        (let I = block_insts (fst st) BB ! p in
         case inst I of
           AllocBox \<Rightarrow>
             (case processAllocBox fuel TL st (inst_id I) of
                None \<Rightarrow> None
              | Some (Inl e) \<Rightarrow> Some (Inl e)
              | Some (Inr st') \<Rightarrow>
                  (case inst_pos (block_insts (fst st') BB) (inst_id I) of
                     None \<Rightarrow> Some (Inl Dangling_Instruction)
                   | Some p' \<Rightarrow>
                       (if inst_use_empty (fst st') I
                        then check_block steps fuel TL (erase_at (fst st') BB p', snd st') BB p'
                        else check_block steps fuel TL st' BB (Suc p'))))
         | AllocStack \<Rightarrow>
             (case processAllocStack fuel TL st (inst_id I) of
                None \<Rightarrow> None
              | Some (Inl e) \<Rightarrow> Some (Inl e)
              | Some (Inr st') \<Rightarrow>
                  (case inst_pos (block_insts (fst st') BB) (inst_id I) of
                     None \<Rightarrow> Some (Inl Dangling_Instruction)
                   | Some p' \<Rightarrow> check_block steps fuel TL st' BB (Suc p')))
         | MarkUninitialized Operand \<Rightarrow>
             (case processMarkUninitialized fuel TL st (inst_id I) of
                None \<Rightarrow> None
              | Some (Inl e) \<Rightarrow> Some (Inl e)
              | Some (Inr st') \<Rightarrow>
                  (case inst_pos (block_insts (fst st') BB) (inst_id I) of
                     None \<Rightarrow> Some (Inl Dangling_Instruction)
                   | Some p' \<Rightarrow> check_block steps fuel TL st' BB (Suc p')))
         | _ \<Rightarrow> check_block steps fuel TL st BB (Suc p)))"

fun check_blocks ::
  "nat \<Rightarrow> (ty \<Rightarrow> TypeLowering) \<Rightarrow> pass_state \<Rightarrow> nat list \<Rightarrow> (failure + pass_state) option"
where
  "check_blocks fuel TL st [] = Some (Inr st)"
| "check_blocks fuel TL st (BB # BBs) =
     (case check_block fuel fuel TL st BB 0 of
        None \<Rightarrow> None
      | Some (Inl e) \<Rightarrow> Some (Inl e)
      | Some (Inr st') \<Rightarrow> check_blocks fuel TL st' BBs)"

text \<open>\<open>checkDefiniteInitialization\<close>. The fuel bounds the depth of the walk over the uses
  and the number of instructions the loop over a block visits. No block is added: type
  lowering as modelled here never splits a block.\<close>

definition checkDefiniteInitialization ::
  "nat \<Rightarrow> (ty \<Rightarrow> TypeLowering) \<Rightarrow> pass_state \<Rightarrow> (failure + pass_state) option" where
  "checkDefiniteInitialization fuel TL st =
     check_blocks fuel TL st [0 ..< length (blocks (fst st))]"

section \<open>The lowering of the raw instructions\<close>

fun is_raw :: "Inst \<Rightarrow> bool" where
  "is_raw (Assign v a) = True"
| "is_raw (MarkUninitialized a) = True"
| "is_raw (MarkFunctionEscape as) = True"
| "is_raw other = False"

text \<open>
  The body of the loop of \<open>lowerRawSILOperations\<close> for the instruction at position \<open>p\<close> of
  block \<open>BB\<close>: the function afterwards and the position the iterator then points to. The
  iterator is moved on before the instruction is lowered (\<open>Inst = I++\<close>), so the
  instructions that the lowering of an assign creates are not visited.
\<close>

definition lower_instruction ::
  "(ty \<Rightarrow> TypeLowering) \<Rightarrow> SILFunction \<Rightarrow> nat \<Rightarrow> nat \<Rightarrow> failure + SILFunction \<times> nat" where
  "lower_instruction TL F BB p =
     (let I = block_insts F BB ! p in
      case inst I of
        Assign Src Dest \<Rightarrow>
          (case LowerAssignInstruction_at TL F BB p False of
             Inl e \<Rightarrow> Inl e
           | Inr (F', Inserted) \<Rightarrow> Inr (F', p + length Inserted))
      | MarkUninitialized Operand \<Rightarrow>
          Inr (erase_at
                 (replaceAllUsesWith F (SILValue (inst_id I) 0 (inst_ty I)) Operand) BB p, p)
      | MarkFunctionEscape as \<Rightarrow> Inr (erase_at F BB p, p)
      | _ \<Rightarrow> Inr (F, Suc p))"

subsection \<open>The loop over a block ends\<close>

lemma block_insts_replaceAllUsesWith:
  "block_insts (replaceAllUsesWith F old new) b
     = map (\<lambda>I. I\<lparr>inst := map_operands (replace_value old new) (inst I)\<rparr>) (block_insts F b)"
  by (simp add: replaceAllUsesWith_def map_insts_def block_insts_def)

lemma length_blocks_replaceAllUsesWith:
  "length (blocks (replaceAllUsesWith F old new)) = length (blocks F)"
  by (simp add: replaceAllUsesWith_def map_insts_def)

lemma is_raw_map_operands: "is_raw (map_operands g i) = is_raw i"
  by (cases i) simp_all

text \<open>Which instructions of a block are raw ones.\<close>

definition raw_flags :: "SILFunction \<Rightarrow> nat \<Rightarrow> bool list" where
  "raw_flags F b = map (\<lambda>I. is_raw (inst I)) (block_insts F b)"

lemma raw_flags_replaceAllUsesWith:
  "raw_flags (replaceAllUsesWith F old new) b = raw_flags F b"
  by (simp add: raw_flags_def block_insts_replaceAllUsesWith is_raw_map_operands comp_def)

lemma raw_flags_erase_at:
  "BB < length (blocks F) \<Longrightarrow>
   raw_flags (erase_at F BB p) b =
     (if b = BB then take p (raw_flags F BB) @ drop (Suc p) (raw_flags F BB) else raw_flags F b)"
  by (simp add: raw_flags_def erase_at_def block_insts_update_block_insts take_map drop_map)

lemma length_raw_flags: "length (raw_flags F b) = length (block_insts F b)"
  by (simp add: raw_flags_def)

lemma lifetime_inst_not_raw: "\<not> is_raw (lifetime_inst op v)"
  by (cases op) simp_all

text \<open>What one step of the loop does to the raw instructions: the ones before the
  iterator stay, none is put before the iterator, the other blocks keep theirs, and
  fewer instructions are left behind the iterator.\<close>

lemma lower_instruction_step:
  assumes bb: "BB < length (blocks F)" and p: "p < length (block_insts F BB)"
  shows "\<exists>F' p'. lower_instruction TL F BB p = Inr (F', p')
     \<and> length (blocks F') = length (blocks F)
     \<and> p' \<le> length (block_insts F' BB)
     \<and> length (block_insts F' BB) - p' < length (block_insts F BB) - p
     \<and> (\<forall>b. b \<noteq> BB \<longrightarrow> raw_flags F' b = raw_flags F b)
     \<and> take p' (raw_flags F' BB) = take p (raw_flags F BB) @ replicate (p' - p) False
     \<and> drop p' (raw_flags F' BB) = drop (Suc p) (raw_flags F BB)
     \<and> (\<not> is_raw (inst (block_insts F BB ! p)) \<longrightarrow> F' = F \<and> p' = Suc p)"
proof (cases "is_raw (inst (block_insts F BB ! p))")
  case False
  then have "lower_instruction TL F BB p = Inr (F, Suc p)"
    by (cases "inst (block_insts F BB ! p)") (simp_all add: lower_instruction_def Let_def)
  moreover have "take (Suc p) (raw_flags F BB) = take p (raw_flags F BB) @ [False]"
    using p False by (simp add: take_Suc_conv_app_nth length_raw_flags) (simp add: raw_flags_def)
  ultimately show ?thesis using p False by simp
next
  case True
  let ?I = "block_insts F BB ! p"
  have pr: "p < length (raw_flags F BB)" using p by (simp add: length_raw_flags)
  consider (assign) Src Dest where "inst ?I = Assign Src Dest"
    | (mui) Operand where "inst ?I = MarkUninitialized Operand"
    | (mfe) as where "inst ?I = MarkFunctionEscape as"
    using True by (cases "inst ?I") simp_all
  then show ?thesis
  proof cases
    case assign
    from LowerAssignInstruction_at_result [OF bb p assign, of TL False]
    obtain F' new where
      r: "LowerAssignInstruction_at TL F BB p False = Inr (F', new)"
      and b: "block_insts F' BB = take p (block_insts F BB) @ new @ drop (Suc p) (block_insts F BB)"
      and o: "\<forall>b. b \<noteq> BB \<longrightarrow> block_insts F' b = block_insts F b"
      and m: "map inst new =
         (if False \<or> isTrivial (TL (vty Dest)) then [Store Src Dest]
          else [Load Dest, Store Src Dest]
               @ map (\<lambda>op. lifetime_inst op (SILValue (next_inst_id F) 0 (vty Dest)))
                   (destroy_ops (TL (vty Dest))))"
      and l: "length (blocks F') = length (blocks F)"
      by blast
    have "map is_raw (map inst new) = replicate (length (map inst new)) False"
      unfolding m by (simp add: lifetime_inst_not_raw comp_def map_replicate_const)
    then have n: "map (\<lambda>I. is_raw (inst I)) new = replicate (length new) False"
      by (simp add: comp_def)
    have f: "raw_flags F' BB
        = take p (raw_flags F BB) @ replicate (length new) False @ drop (Suc p) (raw_flags F BB)"
      by (simp add: raw_flags_def b n take_map drop_map)
    have s: "lower_instruction TL F BB p = Inr (F', p + length new)"
      using assign r by (simp add: lower_instruction_def Let_def)
    have t: "take (p + length new) (raw_flags F' BB)
        = take p (raw_flags F BB) @ replicate (length new) False"
      using pr unfolding f by simp
    have d: "drop (p + length new) (raw_flags F' BB) = drop (Suc p) (raw_flags F BB)"
      using pr unfolding f by simp
    have o': "\<forall>b. b \<noteq> BB \<longrightarrow> raw_flags F' b = raw_flags F b"
      using o by (simp add: raw_flags_def)
    have a1: "p + length new \<le> length (block_insts F' BB)"
      and a2: "length (block_insts F' BB) - (p + length new) < length (block_insts F BB) - p"
      using p by (simp_all add: b)
    show ?thesis
      unfolding s using l t d o' True a1 a2 by simp
  next
    case mui
    let ?F1 = "replaceAllUsesWith F (SILValue (inst_id ?I) 0 (inst_ty ?I)) Operand"
    have bb1: "BB < length (blocks ?F1)"
      using bb by (simp add: length_blocks_replaceAllUsesWith)
    have s: "lower_instruction TL F BB p = Inr (erase_at ?F1 BB p, p)"
      using mui by (simp add: lower_instruction_def Let_def)
    have f: "\<And>b. raw_flags (erase_at ?F1 BB p) b =
        (if b = BB then take p (raw_flags F BB) @ drop (Suc p) (raw_flags F BB)
         else raw_flags F b)"
      using raw_flags_erase_at [OF bb1] by (simp add: raw_flags_replaceAllUsesWith)
    have len: "length (block_insts (erase_at ?F1 BB p) BB) = length (block_insts F BB) - 1"
      using f [of BB] pr length_raw_flags [of "erase_at ?F1 BB p" BB] length_raw_flags [of F BB]
      by simp
    have lb: "length (blocks (erase_at ?F1 BB p)) = length (blocks F)"
      by (simp add: erase_at_def length_blocks_update_block_insts
          length_blocks_replaceAllUsesWith)
    have a1: "p \<le> length (block_insts F BB) - 1"
      and a2: "length (block_insts F BB) - 1 - p < length (block_insts F BB) - p"
      using p by arith+
    show ?thesis
      unfolding s using f len lb pr True a1 a2 by simp
  next
    case mfe
    have s: "lower_instruction TL F BB p = Inr (erase_at F BB p, p)"
      using mfe by (simp add: lower_instruction_def Let_def)
    have f: "\<And>b. raw_flags (erase_at F BB p) b =
        (if b = BB then take p (raw_flags F BB) @ drop (Suc p) (raw_flags F BB)
         else raw_flags F b)"
      using raw_flags_erase_at [OF bb] by simp
    have len: "length (block_insts (erase_at F BB p) BB) = length (block_insts F BB) - 1"
      using f [of BB] pr length_raw_flags [of "erase_at F BB p" BB] length_raw_flags [of F BB]
      by simp
    have lb: "length (blocks (erase_at F BB p)) = length (blocks F)"
      by (simp add: erase_at_def length_blocks_update_block_insts)
    have a1: "p \<le> length (block_insts F BB) - 1"
      and a2: "length (block_insts F BB) - 1 - p < length (block_insts F BB) - p"
      using p by arith+
    show ?thesis
      unfolding s using f len lb pr True a1 a2 by simp
  qed
qed

text \<open>The loop of \<open>lowerRawSILOperations\<close> over one block, from position \<open>p\<close> on.\<close>

function lower_block ::
  "(ty \<Rightarrow> TypeLowering) \<Rightarrow> SILFunction \<Rightarrow> nat \<Rightarrow> nat \<Rightarrow> failure + SILFunction" where
  "lower_block TL F BB p =
     (if \<not> (BB < length (blocks F) \<and> p < length (block_insts F BB)) then Inr F
      else
        (case lower_instruction TL F BB p of
           Inl e \<Rightarrow> Inl e
         | Inr (F', p') \<Rightarrow> lower_block TL F' BB p'))"
  by pat_completeness auto

termination lower_block
proof (relation "measure (\<lambda>(TL, F, BB, p). length (block_insts F BB) - p)", goal_cases)
  case 1
  show ?case by simp
next
  case (2 TL F BB p x F' p')
  then show ?case using lower_instruction_step [of BB F p TL] by auto
qed

declare lower_block.simps [simp del]

fun lower_blocks ::
  "(ty \<Rightarrow> TypeLowering) \<Rightarrow> SILFunction \<Rightarrow> nat list \<Rightarrow> failure + SILFunction" where
  "lower_blocks TL F [] = Inr F"
| "lower_blocks TL F (BB # BBs) =
     (case lower_block TL F BB 0 of
        Inl e \<Rightarrow> Inl e
      | Inr F' \<Rightarrow> lower_blocks TL F' BBs)"

definition lowerRawSILOperations :: "(ty \<Rightarrow> TypeLowering) \<Rightarrow> SILFunction \<Rightarrow> failure + SILFunction" where
  "lowerRawSILOperations TL F = lower_blocks TL F [0 ..< length (blocks F)]"

text \<open>\<open>performSILDefiniteInitialization\<close>: a module is the list of its functions.\<close>

fun performSILDefiniteInitialization ::
  "nat \<Rightarrow> (ty \<Rightarrow> TypeLowering) \<Rightarrow> SILFunction list \<Rightarrow> Diagnostic list \<Rightarrow>
     (failure + SILFunction list \<times> Diagnostic list) option"
where
  "performSILDefiniteInitialization fuel TL [] D = Some (Inr ([], D))"
| "performSILDefiniteInitialization fuel TL (F # M) D =
     (case checkDefiniteInitialization fuel TL (F, D) of
        None \<Rightarrow> None
      | Some (Inl e) \<Rightarrow> Some (Inl e)
      | Some (Inr (F1, D1)) \<Rightarrow>
          (case lowerRawSILOperations TL F1 of
             Inl e \<Rightarrow> Some (Inl e)
           | Inr F2 \<Rightarrow>
               (case performSILDefiniteInitialization fuel TL M D1 of
                  None \<Rightarrow> None
                | Some (Inl e) \<Rightarrow> Some (Inl e)
                | Some (Inr (M', D')) \<Rightarrow> Some (Inr (F2 # M', D')))))"


section \<open>Predicates on functions and uses\<close>

text \<open>The instructions that \<open>checkDefiniteInitialization\<close> processes, and a function
  without any.\<close>

fun is_memory :: "Inst \<Rightarrow> bool" where
  "is_memory AllocBox = True"
| "is_memory AllocStack = True"
| "is_memory (MarkUninitialized a) = True"
| "is_memory other = False"


text \<open>A use of an address that \<open>collectUses\<close> hands to \<open>addElementUses\<close>, at the top of the
  walk: the use by a \<open>copy_addr\<close>, an \<open>initialize_var\<close> or an \<open>apply\<close>, and every use that
  escapes. These are the uses that are neither scalarized, nor followed into a projected
  address, nor recorded for the base element alone.\<close>

definition whole_value_use :: "SILFunction \<Rightarrow> ty \<Rightarrow> nat \<times> nat \<Rightarrow> bool" where
  "whole_value_use F PointeeType u =
     (case get_inst F (fst u) of
        None \<Rightarrow> False
      | Some I \<Rightarrow>
          (case classify_use False False PointeeType (inst I) (snd u) of
             Inr (Record_Element_Uses Kind) \<Rightarrow> True
           | _ \<Rightarrow> False))"

text \<open>A use of an address that \<open>collectUses\<close> puts on the list of the uses to scalarize, at
  the top of the walk over a tuple: a load from the address, and a store or an assign
  to it.\<close>

definition scalarized_use :: "SILFunction \<Rightarrow> ty \<Rightarrow> nat \<times> nat \<Rightarrow> bool" where
  "scalarized_use F PointeeType u =
     (case get_inst F (fst u) of
        None \<Rightarrow> False
      | Some I \<Rightarrow> classify_use False False PointeeType (inst I) (snd u) = Inr To_Scalarize)"

definition scalarized_users :: "SILFunction \<Rightarrow> SILValue \<Rightarrow> nat list" where
  "scalarized_users F Pointer =
     map fst (filter (scalarized_use F (vty Pointer)) (getUses F Pointer))"

text \<open>The instruction that takes the place of a load that has no element to load: a
  tuple (or struct) of no operands, with the type and the location of the load. And an
  instruction with the uses of one value turned into uses of another.\<close>

definition empty_aggregate :: "nat \<Rightarrow> SILInstruction \<Rightarrow> SILInstruction" where
  "empty_aggregate n LI =
     \<lparr>inst_id = n,
      inst = (if is_TupleTy (inst_ty LI) then TupleInst [] else StructInst []),
      inst_ty = inst_ty LI, loc = loc LI\<rparr>"

definition redirect_uses :: "SILValue \<Rightarrow> SILValue \<Rightarrow> SILInstruction \<Rightarrow> SILInstruction" where
  "redirect_uses old new J = J\<lparr>inst := map_operands (replace_value old new) (inst J)\<rparr>"

section \<open>Counting diagnostics\<close>

text \<open>Exactly one error, of one of the given kinds, with the note at the allocation, has
  been added between two states, and the later state is marked as having had an error.\<close>

definition one_error :: "Diag set \<Rightarrow> ElementPromotion \<Rightarrow> ElementPromotion \<Rightarrow> bool" where
  "one_error ds EP EP' =
     (HadError EP' \<and>
      (\<exists>M l d Name. get_inst (Fn EP') (TheMemory EP') = Some M \<and> d \<in> ds
         \<and> Diags EP' = Diags EP @
              [Diagnostic l d (Some Name),
               Diagnostic (source_loc (loc M)) variable_defined_here None]))"

text \<open>Nothing has been diagnosed between two states.\<close>

definition no_error :: "ElementPromotion \<Rightarrow> ElementPromotion \<Rightarrow> bool" where
  "no_error EP EP' = (HadError EP' = HadError EP \<and> Diags EP' = Diags EP)"

text \<open>The errors that the handler of a kind of use can diagnose.\<close>

fun errors_of :: "UseKind \<Rightarrow> Diag set" where
  "errors_of Load_Use = {variable_used_before_initialized}"
| "errors_of Store_Use = {}"
| "errors_of PartialStore_Use = {struct_not_fully_initialized}"
| "errors_of InOutUse = {variable_inout_before_initialized}"
| "errors_of Escape_Use = {global_variable_function_use_uninit, variable_escape_before_initialized}"
| "errors_of Release_Use = {variable_destroyed_before_initialized}"

text \<open>The errors of the pass other than the one for a value initialized on some paths.\<close>

definition reachable_errors :: "Diag set" where
  "reachable_errors =
     {variable_used_before_initialized, variable_inout_before_initialized,
      variable_escape_before_initialized, variable_destroyed_before_initialized,
      struct_not_fully_initialized, global_variable_function_use_uninit}"

text \<open>The diagnostics for a value that is initialized on some paths only, among the
  diagnostics the engine holds.\<close>

fun is_initialized_on_some_paths :: "Diagnostic \<Rightarrow> bool" where
  "is_initialized_on_some_paths (Diagnostic l d a) = (d = variable_initialized_on_some_paths)"

definition on_some_paths_diags :: "Diagnostic list \<Rightarrow> Diagnostic list" where
  "on_some_paths_diags D = filter is_initialized_on_some_paths D"

section \<open>Example functions\<close>

definition ex_Int :: ty where "ex_Int = OtherTy ''Int''"

definition ex_loc :: "nat \<Rightarrow> SILLocation" where
  "ex_loc n = \<lparr>source_loc = n, decl_name = None\<rparr>"

text \<open>
  A function of four blocks: block 0 allocates a box (instruction 10) and branches to
  blocks 1 and 2; block 1 stores to the box (11) and loads from it (12); block 2 does
  nothing; block 3, reached from both, loads from the box (13).
\<close>

definition ex_diamond :: SILFunction where
  "ex_diamond = \<lparr>blocks = [
      \<lparr>insts = [\<lparr>inst_id = 10, inst = AllocBox, inst_ty = ex_Int,
                 loc = \<lparr>source_loc = 10, decl_name = Some ''x''\<rparr>\<rparr>],
       preds = []\<rparr>,
      \<lparr>insts = [\<lparr>inst_id = 11, inst = Store (SILValue 100 0 ex_Int) (SILValue 10 1 ex_Int),
                 inst_ty = ex_Int, loc = ex_loc 11\<rparr>,
                \<lparr>inst_id = 12, inst = Load (SILValue 10 1 ex_Int), inst_ty = ex_Int, loc = ex_loc 12\<rparr>],
       preds = [0]\<rparr>,
      \<lparr>insts = [], preds = [0]\<rparr>,
      \<lparr>insts = [\<lparr>inst_id = 13, inst = Load (SILValue 10 1 ex_Int), inst_ty = ex_Int, loc = ex_loc 13\<rparr>],
       preds = [1, 2]\<rparr>],
    next_inst_id = 14\<rparr>"

definition ex_diamond_uses :: ElementUses where
  "ex_diamond_uses = [(Some 11, Store_Use), (Some 12, Load_Use), (Some 13, Load_Use)]"

definition ex_diamond_info :: block_info where
  "ex_diamond_info = (\<lambda>b. default_LiveOutBlockState)
     (1 := \<lparr>EscapeInfo = Escape_Unknown, HasNonLoadUse = True, Availability = IsLiveOut\<rparr>,
      0 := \<lparr>EscapeInfo = Escape_Unknown, HasNonLoadUse = True, Availability = IsNotLiveOut\<rparr>)"

definition ex_diamond_EP :: ElementPromotion where
  "ex_diamond_EP = \<lparr>Fn = ex_diamond, TheMemory = 10, ElementNumber = 0,
     NumMemorySubElements = 1, Uses = ex_diamond_uses, PerBlockInfo = ex_diamond_info,
     NonLoadUses = {10, 11}, HasAnyEscape = False, HadError = False, Diags = []\<rparr>"

definition ex_Class :: ty where "ex_Class = OtherTy ''C''"

definition ex_TL :: "ty \<Rightarrow> TypeLowering" where
  "ex_TL T = (if T = ex_Class then \<lparr>isTrivial = False, destroy_ops = [Op_StrongRelease]\<rparr>
              else \<lparr>isTrivial = True, destroy_ops = []\<rparr>)"

text \<open>A function of one block: a box of class type (instruction 10) and an assign of a
  value to it (11).\<close>

definition ex_assign :: SILFunction where
  "ex_assign = \<lparr>blocks = [
      \<lparr>insts = [\<lparr>inst_id = 10, inst = AllocBox, inst_ty = ex_Class,
                 loc = \<lparr>source_loc = 20, decl_name = Some ''c''\<rparr>\<rparr>,
                \<lparr>inst_id = 11, inst = Assign (SILValue 100 0 ex_Class) (SILValue 10 1 ex_Class),
                 inst_ty = no_result_ty, loc = ex_loc 21\<rparr>],
       preds = []\<rparr>],
    next_inst_id = 12\<rparr>"

definition ex_Pair :: ty where
  "ex_Pair = StructTy ''Pair'' [(''x'', OtherTy ''Int''), (''y'', OtherTy ''Int'')]"

text \<open>A function of one block: a box (instruction 10), a load from it (11) and only then
  a store to it (12); and the state of the promotion of its one element.\<close>

definition ex_early :: SILFunction where
  "ex_early = \<lparr>blocks = [
      \<lparr>insts = [\<lparr>inst_id = 10, inst = AllocBox, inst_ty = ex_Int,
                 loc = \<lparr>source_loc = 40, decl_name = Some ''x''\<rparr>\<rparr>,
                \<lparr>inst_id = 11, inst = Load (SILValue 10 1 ex_Int), inst_ty = ex_Int,
                 loc = ex_loc 41\<rparr>,
                \<lparr>inst_id = 12, inst = Store (SILValue 100 0 ex_Int) (SILValue 10 1 ex_Int),
                 inst_ty = no_result_ty, loc = ex_loc 42\<rparr>],
       preds = []\<rparr>],
    next_inst_id = 13\<rparr>"

definition ex_early_EP :: ElementPromotion where
  "ex_early_EP = \<lparr>Fn = ex_early, TheMemory = 10, ElementNumber = 0,
     NumMemorySubElements = 1,
     Uses = [(Some 11, Load_Use), (Some 12, Store_Use)],
     PerBlockInfo = (\<lambda>b. default_LiveOutBlockState)
       (0 := \<lparr>EscapeInfo = Escape_Unknown, HasNonLoadUse = True, Availability = IsLiveOut\<rparr>),
     NonLoadUses = {10, 12}, HasAnyEscape = False, HadError = False, Diags = []\<rparr>"

definition ex_assign_EP :: ElementPromotion where
  "ex_assign_EP = \<lparr>Fn = ex_assign, TheMemory = 10, ElementNumber = 0,
     NumMemorySubElements = 1,
     Uses = [(Some 11, Store_Use)],
     PerBlockInfo = (\<lambda>b. default_LiveOutBlockState)
       (0 := \<lparr>EscapeInfo = Escape_Unknown, HasNonLoadUse = True, Availability = IsLiveOut\<rparr>),
     NonLoadUses = {10, 11}, HasAnyEscape = False, HadError = False, Diags = []\<rparr>"

definition ex_early_diagnosed :: ElementPromotion where
  "ex_early_diagnosed = ex_early_EP\<lparr>HadError := True,
     Diags := [Diagnostic 41 variable_used_before_initialized (Some ''x''),
               Diagnostic 40 variable_defined_here None]\<rparr>"







text \<open>
  A box of the empty tuple that is loaded from (11), and what \<open>processAllocBox\<close> makes of
  it; and a box of the empty tuple that is copied from with a \<open>copy_addr\<close> (11).
\<close>

definition ex_unit :: SILFunction where
  "ex_unit =
     \<lparr>blocks =
        [\<lparr>insts =
            [\<lparr>inst_id = 10, inst = AllocBox, inst_ty = TupleTy [], loc = ex_loc 10\<rparr>,
             \<lparr>inst_id = 11, inst = Load (SILValue 10 1 (TupleTy [])), inst_ty = TupleTy [],
               loc = ex_loc 11\<rparr>,
             \<lparr>inst_id = 12, inst = OtherInst ''return'' [SILValue 11 0 (TupleTy [])],
               inst_ty = no_result_ty, loc = ex_loc 12\<rparr>],
           preds = []\<rparr>],
      next_inst_id = 13\<rparr>"

definition ex_unit_scalarized :: SILFunction where
  "ex_unit_scalarized =
     \<lparr>blocks =
        [\<lparr>insts =
            [\<lparr>inst_id = 10, inst = AllocBox, inst_ty = TupleTy [], loc = ex_loc 10\<rparr>,
             \<lparr>inst_id = 13, inst = TupleInst [], inst_ty = TupleTy [], loc = ex_loc 11\<rparr>,
             \<lparr>inst_id = 12, inst = OtherInst ''return'' [SILValue 13 0 (TupleTy [])],
               inst_ty = no_result_ty, loc = ex_loc 12\<rparr>],
           preds = []\<rparr>],
      next_inst_id = 14\<rparr>"

definition ex_unit_copy :: SILFunction where
  "ex_unit_copy =
     \<lparr>blocks =
        [\<lparr>insts =
            [\<lparr>inst_id = 10, inst = AllocBox, inst_ty = TupleTy [], loc = ex_loc 10\<rparr>,
             \<lparr>inst_id = 11,
               inst = CopyAddr (SILValue 10 1 (TupleTy [])) (SILValue 6 0 (TupleTy [])) False True,
               inst_ty = no_result_ty, loc = ex_loc 11\<rparr>],
           preds = []\<rparr>],
      next_inst_id = 12\<rparr>"

text \<open>
  A function of one block: a box of a struct of two stored properties (10) is initialized
  as a whole by a \<open>copy_addr\<close> (11); then the first property is stored to through its
  address (12, 13), and the whole struct is loaded (14) and returned (15). With it the
  uses that the collector records for the one element of the box.
\<close>

definition ex_reload :: SILFunction where
  "ex_reload =
     \<lparr>blocks =
        [\<lparr>insts =
            [\<lparr>inst_id = 10, inst = AllocBox, inst_ty = ex_Pair,
               loc = \<lparr>source_loc = 50, decl_name = Some ''p''\<rparr>\<rparr>,
             \<lparr>inst_id = 11,
               inst = CopyAddr (SILValue 101 0 ex_Pair) (SILValue 10 1 ex_Pair) False True,
               inst_ty = no_result_ty, loc = ex_loc 51\<rparr>,
             \<lparr>inst_id = 12, inst = StructElementAddr (SILValue 10 1 ex_Pair) ''x'',
               inst_ty = ex_Int, loc = ex_loc 52\<rparr>,
             \<lparr>inst_id = 13, inst = Store (SILValue 100 0 ex_Int) (SILValue 12 0 ex_Int),
               inst_ty = no_result_ty, loc = ex_loc 53\<rparr>,
             \<lparr>inst_id = 14, inst = Load (SILValue 10 1 ex_Pair), inst_ty = ex_Pair,
               loc = ex_loc 54\<rparr>,
             \<lparr>inst_id = 15, inst = OtherInst ''return'' [SILValue 14 0 ex_Pair],
               inst_ty = no_result_ty, loc = ex_loc 55\<rparr>],
           preds = []\<rparr>],
      next_inst_id = 16\<rparr>"

definition ex_reload_uses :: ElementUses where
  "ex_reload_uses = [(Some 11, Store_Use), (Some 13, PartialStore_Use), (Some 14, Load_Use)]"

text \<open>The state of the promotion of that element when the loads are promoted, and the
  function after the pass: the load is replaced by a struct of the stored value and of a
  new load of the second property.\<close>

definition ex_reload_EP :: ElementPromotion where
  "ex_reload_EP = \<lparr>Fn = ex_reload, TheMemory = 10, ElementNumber = 0,
     NumMemorySubElements = 2, Uses = ex_reload_uses,
     PerBlockInfo = (\<lambda>b. default_LiveOutBlockState)
       (0 := \<lparr>EscapeInfo = Escape_Unknown, HasNonLoadUse = True, Availability = IsLiveOut\<rparr>),
     NonLoadUses = {10, 11, 13}, HasAnyEscape = False, HadError = False, Diags = []\<rparr>"

definition ex_reload_promoted :: SILFunction where
  "ex_reload_promoted =
     \<lparr>blocks =
        [\<lparr>insts =
            [\<lparr>inst_id = 10, inst = AllocBox, inst_ty = ex_Pair,
               loc = \<lparr>source_loc = 50, decl_name = Some ''p''\<rparr>\<rparr>,
             \<lparr>inst_id = 11,
               inst = CopyAddr (SILValue 101 0 ex_Pair) (SILValue 10 1 ex_Pair) False True,
               inst_ty = no_result_ty, loc = ex_loc 51\<rparr>,
             \<lparr>inst_id = 12, inst = StructElementAddr (SILValue 10 1 ex_Pair) ''x'',
               inst_ty = ex_Int, loc = ex_loc 52\<rparr>,
             \<lparr>inst_id = 13, inst = Store (SILValue 100 0 ex_Int) (SILValue 12 0 ex_Int),
               inst_ty = no_result_ty, loc = ex_loc 53\<rparr>,
             \<lparr>inst_id = 16, inst = StructElementAddr (SILValue 10 1 ex_Pair) ''y'',
               inst_ty = ex_Int, loc = ex_loc 54\<rparr>,
             \<lparr>inst_id = 17, inst = Load (SILValue 16 0 ex_Int), inst_ty = ex_Int,
               loc = ex_loc 54\<rparr>,
             \<lparr>inst_id = 18,
               inst = StructInst [SILValue 100 0 ex_Int, SILValue 17 0 ex_Int],
               inst_ty = ex_Pair, loc = ex_loc 54\<rparr>,
             \<lparr>inst_id = 15, inst = OtherInst ''return'' [SILValue 18 0 ex_Pair],
               inst_ty = no_result_ty, loc = ex_loc 55\<rparr>],
           preds = []\<rparr>],
      next_inst_id = 19\<rparr>"

text \<open>
  A box of the empty tuple that is stored to (11) and loaded from (12), and what
  \<open>processAllocBox\<close> makes of it: the store is gone, and an empty tuple (14) stands in the
  place of the load.
\<close>

definition ex_unit_store_load :: SILFunction where
  "ex_unit_store_load =
     \<lparr>blocks =
        [\<lparr>insts =
            [\<lparr>inst_id = 10, inst = AllocBox, inst_ty = TupleTy [], loc = ex_loc 10\<rparr>,
             \<lparr>inst_id = 11,
               inst = Store (SILValue 7 0 (TupleTy [])) (SILValue 10 1 (TupleTy [])),
               inst_ty = no_result_ty, loc = ex_loc 11\<rparr>,
             \<lparr>inst_id = 12, inst = Load (SILValue 10 1 (TupleTy [])), inst_ty = TupleTy [],
               loc = ex_loc 12\<rparr>,
             \<lparr>inst_id = 13, inst = OtherInst ''return'' [SILValue 12 0 (TupleTy [])],
               inst_ty = no_result_ty, loc = ex_loc 13\<rparr>],
           preds = []\<rparr>],
      next_inst_id = 14\<rparr>"

definition ex_unit_store_load_scalarized :: SILFunction where
  "ex_unit_store_load_scalarized =
     \<lparr>blocks =
        [\<lparr>insts =
            [\<lparr>inst_id = 10, inst = AllocBox, inst_ty = TupleTy [], loc = ex_loc 10\<rparr>,
             \<lparr>inst_id = 14, inst = TupleInst [], inst_ty = TupleTy [], loc = ex_loc 12\<rparr>,
             \<lparr>inst_id = 13, inst = OtherInst ''return'' [SILValue 14 0 (TupleTy [])],
               inst_ty = no_result_ty, loc = ex_loc 13\<rparr>],
           preds = []\<rparr>],
      next_inst_id = 15\<rparr>"

section \<open>Path strings and leaf paths\<close>

lemma length_tuple_leaf_paths:
  "length (tuple_leaf_paths T) = getTupleElementCount T"
  "length (tuple_leaf_paths_fields fs k) = getTupleElementCount_fields fs"
  by (induction T and fs k rule: tuple_leaf_paths_tuple_leaf_paths_fields.induct) simp_all

lemma getPathStringToElement_nth:
  "Element < getTupleElementCount T \<Longrightarrow>
     getPathStringToElement T Element Result = Some (Result @ tuple_leaf_paths T ! Element)"
  "Element < getTupleElementCount_fields fs \<Longrightarrow>
     getPathStringToElement_fields fs Element FieldNo Result =
       Some (Result @ tuple_leaf_paths_fields fs FieldNo ! Element)"
proof (induction T Element Result and fs Element FieldNo Result
    rule: getPathStringToElement_getPathStringToElement_fields.induct)
  case (5 n t fs Element FieldNo Result)
  show ?case
  proof (cases "Element < getTupleElementCount t")
    case True
    then show ?thesis
      using "5.IH"(1) [OF refl True]
      by (simp add: nth_append length_tuple_leaf_paths)
  next
    case False
    then have "Element - getTupleElementCount t < getTupleElementCount_fields fs"
      using "5.prems" by simp
    then show ?thesis
      using "5.IH"(2) [OF refl False] False
      by (simp add: nth_append length_tuple_leaf_paths)
  qed
qed simp_all

text \<open>
  Claim C3, as amended. The path strings of the tuple elements of a type, in the order of
  their element numbers \<open>0 ..< getTupleElementCount T\<close>, are the leaf paths of the type in
  depth-first left-to-right order, where the descent goes through tuple fields only (a
  struct is a single leaf and contributes no step), each appended to the incoming string.
\<close>

theorem pathString_enumerates_tuple_leaves:
  "map (\<lambda>i. getPathStringToElement T i Result) [0 ..< getTupleElementCount T]
     = map (\<lambda>p. Some (Result @ p)) (tuple_leaf_paths T)"
  by (rule nth_equalityI)
    (simp_all add: length_tuple_leaf_paths getPathStringToElement_nth)

text \<open>
  Claim C3 as stated fails. For the one-field tuple whose field is a struct of two stored
  properties, the sub-element count is 2 and the specification's enumeration has the two
  paths \<open>.0.x\<close> and \<open>.0.y\<close>, but the path string of index 0 is \<open>.0\<close> and index 1 runs into
  the out-of-range assertion: the map is no bijection onto the enumeration.
\<close>

theorem pathString_not_bijection_counterexample:
  "getNumSubElements (TupleTy [(None, StructTy ''S'' [(''x'', OtherTy ''Int''), (''y'', OtherTy ''Int'')])]) = 2
   \<and> spec_leaf_paths (TupleTy [(None, StructTy ''S'' [(''x'', OtherTy ''Int''), (''y'', OtherTy ''Int'')])])
       = [''.0.x'', ''.0.y'']
   \<and> getPathStringToElement
       (TupleTy [(None, StructTy ''S'' [(''x'', OtherTy ''Int''), (''y'', OtherTy ''Int'')])]) 0 ''''
       = Some ''.0''
   \<and> getPathStringToElement
       (TupleTy [(None, StructTy ''S'' [(''x'', OtherTy ''Int''), (''y'', OtherTy ''Int'')])]) 1 ''''
       = None
   \<and> \<not> bij_betw
       (\<lambda>i. getPathStringToElement
          (TupleTy [(None, StructTy ''S'' [(''x'', OtherTy ''Int''), (''y'', OtherTy ''Int'')])]) i '''')
       {0 ..< getNumSubElements
          (TupleTy [(None, StructTy ''S'' [(''x'', OtherTy ''Int''), (''y'', OtherTy ''Int'')])])}
       (Some ` set (spec_leaf_paths
          (TupleTy [(None, StructTy ''S'' [(''x'', OtherTy ''Int''), (''y'', OtherTy ''Int'')])])))"
proof -
  let ?T = "TupleTy [(None, StructTy ''S'' [(''x'', OtherTy ''Int''), (''y'', OtherTy ''Int'')])]"
  have n: "getNumSubElements ?T = 2" by simp
  have u0: "utostr 0 = ''0''" by (simp add: utostr.simps digit_char_def)
  have sp: "spec_leaf_paths ?T = [''.0.x'', ''.0.y'']" by (simp add: u0)
  have p0: "getPathStringToElement ?T 0 '''' = Some ''.0''" by (simp add: u0)
  have p1: "getPathStringToElement ?T 1 '''' = None" by simp
  have "\<not> bij_betw (\<lambda>i. getPathStringToElement ?T i '''') {0 ..< getNumSubElements ?T}
          (Some ` set (spec_leaf_paths ?T))"
  proof
    assume "bij_betw (\<lambda>i. getPathStringToElement ?T i '''') {0 ..< getNumSubElements ?T}
          (Some ` set (spec_leaf_paths ?T))"
    then have "(\<lambda>i. getPathStringToElement ?T i '''') ` {0 ..< getNumSubElements ?T}
          = Some ` set (spec_leaf_paths ?T)"
      by (rule bij_betw_imp_surj_on)
    moreover have "getPathStringToElement ?T 1 ''''
        \<in> (\<lambda>i. getPathStringToElement ?T i '''') ` {0 ..< getNumSubElements ?T}"
      unfolding n by (rule imageI) simp
    ultimately have "None \<in> Some ` set (spec_leaf_paths ?T)"
      unfolding p1 by simp
    then show False by blast
  qed
  with n sp p0 p1 show ?thesis by blast
qed

section \<open>Live-out computation and the definite-initialization check\<close>


lemma isLiveOut_preds_every:
  "snd (isLiveOut_preds F PBI Ps) = spec_every_pred_live_out F PBI Ps"
proof (induction Ps arbitrary: PBI)
  case Nil
  show ?case by (simp add: isLiveOut_preds.simps spec_every_pred_live_out_def)
next
  case (Cons P Ps)
  show ?case
  proof (cases "snd (isLiveOut F PBI P)")
    case True
    have "spec_every_pred_live_out F PBI (P # Ps)
        = spec_every_pred_live_out F (fst (isLiveOut F PBI P)) Ps"
      unfolding spec_every_pred_live_out_def
      using True
      by (auto simp: isLiveOut_preds.simps Let_def less_Suc_eq_0_disj)
    then show ?thesis
      using True Cons.IH [of "fst (isLiveOut F PBI P)"]
      by (simp add: isLiveOut_preds.simps Let_def)
  next
    case False
    then have "\<not> spec_every_pred_live_out F PBI (P # Ps)"
      unfolding spec_every_pred_live_out_def
      by (auto simp: isLiveOut_preds.simps intro!: exI [of _ 0])
    then show ?thesis
      using False by (simp add: isLiveOut_preds.simps Let_def)
  qed
qed

lemma scan_NonLoadUses_None:
  "pos \<le> length is \<Longrightarrow>
     (scan_NonLoadUses NLU (rev (take pos is)) = None) = (\<forall>j<pos. inst_id (is ! j) \<notin> NLU)"
proof (induction pos)
  case 0
  show ?case by simp
next
  case (Suc pos)
  then have "take (Suc pos) is = take pos is @ [is ! pos]"
    by (simp add: take_Suc_conv_app_nth)
  then show ?case using Suc by (auto simp: less_Suc_eq)
qed

lemma scan_NonLoadUses_nearest:
  "pos \<le> length is \<Longrightarrow> spec_nearest_NonLoadUse NLU is pos j \<Longrightarrow>
     scan_NonLoadUses NLU (rev (take pos is)) = Some (inst_id (is ! j))"
proof (induction pos)
  case 0
  then show ?case by (simp add: spec_nearest_NonLoadUse_def)
next
  case (Suc pos)
  then have t: "take (Suc pos) is = take pos is @ [is ! pos]"
    by (simp add: take_Suc_conv_app_nth)
  show ?case
  proof (cases "j = pos")
    case True
    then show ?thesis using Suc.prems t by (simp add: spec_nearest_NonLoadUse_def)
  next
    case False
    then have "spec_nearest_NonLoadUse NLU is pos j" and "inst_id (is ! pos) \<notin> NLU"
      using Suc.prems by (auto simp: spec_nearest_NonLoadUse_def)
    then show ?thesis using Suc t by simp
  qed
qed

lemma collect_use_info_Availability:
  "collect_use_info F U (PBI, NLU, esc) = Inr (PBI', NLU', esc') \<Longrightarrow>
     Availability (PBI' b) =
       (if spec_block_has_non_load_use F U b then IsLiveOut else Availability (PBI b))"
proof (induction U arbitrary: PBI NLU esc)
  case Nil
  then show ?case by (simp add: spec_block_has_non_load_use_def)
next
  case (Cons u U)
  obtain io k where u: "u = (io, k)" by (cases u)
  show ?case
  proof (cases io)
    case None
    then show ?thesis using Cons.prems u by simp
  next
    case (Some i)
    show ?thesis
    proof (cases "k = Load_Use")
      case True
      then have "collect_use_info F U (PBI, NLU, esc) = Inr (PBI', NLU', esc')"
        using Cons.prems u Some by simp
      from Cons.IH [OF this] show ?thesis
        using True u Some by (auto simp: spec_block_has_non_load_use_def)
    next
      case False
      then obtain BB p where f: "find_inst F i = Some (BB, p)"
        using Cons.prems u Some by (auto split: option.splits)
      let ?PBI = "PBI(BB := (PBI BB)\<lparr>
                    EscapeInfo := (if k = Escape_Use then Escape_Yes else EscapeInfo (PBI BB)),
                    HasNonLoadUse := True,
                    Availability := IsLiveOut\<rparr>)"
      have "collect_use_info F U (?PBI, insert i NLU, esc \<or> k = Escape_Use) = Inr (PBI', NLU', esc')"
        using Cons.prems u Some False f by simp
      from Cons.IH [OF this]
      have ih: "Availability (PBI' b) =
         (if spec_block_has_non_load_use F U b then IsLiveOut else Availability (?PBI b))" .
      have sp: "spec_block_has_non_load_use F (u # U) b
          = (b = BB \<or> spec_block_has_non_load_use F U b)"
        using u Some False f by (auto simp: spec_block_has_non_load_use_def getParent_def)
      show ?thesis unfolding sp ih by simp
    qed
  qed
qed

lemma new_ElementPromotion_Availability:
  assumes "new_ElementPromotion F D M E U = Inr EP"
  shows "Availability (PerBlockInfo EP b) =
       (if spec_block_has_non_load_use F U b then IsLiveOut
        else if getParent F M = Some b then IsNotLiveOut else IsUnknown)"
proof -
  from assms obtain Mi PBI NLU esc BB p where
    c: "collect_use_info F U (\<lambda>b. default_LiveOutBlockState, {}, False) = Inr (PBI, NLU, esc)"
    and f: "find_inst F M = Some (BB, p)"
    and pbi: "PerBlockInfo EP =
       (if Availability ((PBI(BB := (PBI BB)\<lparr>HasNonLoadUse := True\<rparr>)) BB) = IsUnknown
        then setAvailability (PBI(BB := (PBI BB)\<lparr>HasNonLoadUse := True\<rparr>)) BB IsNotLiveOut
        else PBI(BB := (PBI BB)\<lparr>HasNonLoadUse := True\<rparr>))"
    by (auto simp: new_ElementPromotion_def Let_def split: option.splits sum.splits)
  have a: "Availability (PBI b) =
       (if spec_block_has_non_load_use F U b then IsLiveOut else IsUnknown)" for b
    using collect_use_info_Availability [OF c, of b] by (simp add: default_LiveOutBlockState_def)
  show ?thesis
    unfolding pbi using a [of b] a [of BB] f
    by (auto simp: setAvailability_def getParent_def)
qed

lemma ex_diamond_find:
  "find_inst ex_diamond 10 = Some (0, 0)"
  "find_inst ex_diamond 11 = Some (1, 0)"
  "find_inst ex_diamond 12 = Some (1, 1)"
  "find_inst ex_diamond 13 = Some (3, 0)"
  by (simp_all add: find_inst_def ex_diamond_def)

lemma ex_diamond_alloc:
  "get_inst ex_diamond 10 = Some \<lparr>inst_id = 10, inst = AllocBox, inst_ty = ex_Int,
                 loc = \<lparr>source_loc = 10, decl_name = Some ''x''\<rparr>\<rparr>"
  unfolding get_inst_def ex_diamond_find by (simp add: block_insts_def ex_diamond_def)

lemma ex_diamond_new: "new_ElementPromotion ex_diamond [] 10 0 ex_diamond_uses = Inr ex_diamond_EP"
  unfolding new_ElementPromotion_def ex_diamond_alloc
  by (simp add: ex_diamond_find ex_diamond_uses_def
      ex_diamond_EP_def ex_diamond_info_def setAvailability_def default_LiveOutBlockState_def
      ex_Int_def insert_commute fun_upd_twist)

lemma ex_diamond_isLiveOut_2:
  "isLiveOut ex_diamond ex_diamond_info 2 = (setAvailability ex_diamond_info 2 IsNotLiveOut, False)"
  by (simp add: isLiveOut.simps isLiveOut_preds.simps ex_diamond_info_def setAvailability_def
     default_LiveOutBlockState_def pred_blocks_def ex_diamond_def Let_def)

lemma ex_diamond_every_pred:
  "\<not> spec_every_pred_live_out ex_diamond ex_diamond_info [1, 2]"
proof
  assume "spec_every_pred_live_out ex_diamond ex_diamond_info [1, 2]"
  then have "snd (isLiveOut ex_diamond (fst (isLiveOut_preds ex_diamond ex_diamond_info (take 1 [1, 2]))) ([1, 2] ! 1))"
    unfolding spec_every_pred_live_out_def by (drule_tac x = 1 in spec) simp
  moreover have "isLiveOut_preds ex_diamond ex_diamond_info [1] = (ex_diamond_info, True)"
    by (simp add: isLiveOut.simps isLiveOut_preds.simps ex_diamond_info_def Let_def)
  ultimately show False
    by (simp add: ex_diamond_isLiveOut_2)
qed

text \<open>
  Claim C1. Let the use \<open>I\<close> stand at position \<open>pos\<close> of block \<open>B\<close>. If \<open>B\<close> has a
  non-load use and \<open>j\<close> is the first instruction in the non-load-use set found scanning
  backward from \<open>I\<close>, the check answers No when \<open>j\<close> is the allocation and Yes otherwise.
  If \<open>B\<close> has no non-load use, or no instruction before \<open>I\<close> is in the set, the check
  answers Yes if and only if every predecessor of \<open>B\<close> is live out, and No otherwise.
\<close>

theorem checkDefinitelyInit_answer:
  assumes f: "find_inst (Fn EP) I = Some (B, pos)"
  shows "(HasNonLoadUse (PerBlockInfo EP B)
          \<and> spec_nearest_NonLoadUse (NonLoadUses EP) (block_insts (Fn EP) B) pos j \<longrightarrow>
            checkDefinitelyInit EP I =
              Inr (EP, if inst_id (block_insts (Fn EP) B ! j) = TheMemory EP then DI_No else DI_Yes))
         \<and> (\<not> HasNonLoadUse (PerBlockInfo EP B)
              \<or> (\<forall>j<pos. inst_id (block_insts (Fn EP) B ! j) \<notin> NonLoadUses EP) \<longrightarrow>
            checkDefinitelyInit EP I =
              Inr (EP\<lparr>PerBlockInfo :=
                       fst (isLiveOut_preds (Fn EP) (PerBlockInfo EP) (pred_blocks (Fn EP) B))\<rparr>,
                   if spec_every_pred_live_out (Fn EP) (PerBlockInfo EP) (pred_blocks (Fn EP) B)
                   then DI_Yes else DI_No))"
proof (intro conjI impI)
  have le: "pos \<le> length (block_insts (Fn EP) B)" using find_inst_Some [OF f] by simp
  {
    assume "HasNonLoadUse (PerBlockInfo EP B)
          \<and> spec_nearest_NonLoadUse (NonLoadUses EP) (block_insts (Fn EP) B) pos j"
    then have h: "HasNonLoadUse (PerBlockInfo EP B)"
      and n: "spec_nearest_NonLoadUse (NonLoadUses EP) (block_insts (Fn EP) B) pos j"
      by simp_all
    from scan_NonLoadUses_nearest [OF le n] f h
    show "checkDefinitelyInit EP I =
         Inr (EP, if inst_id (block_insts (Fn EP) B ! j) = TheMemory EP then DI_No else DI_Yes)"
      by (simp add: checkDefinitelyInit_def)
  }
  {
    assume h: "\<not> HasNonLoadUse (PerBlockInfo EP B)
         \<or> (\<forall>j<pos. inst_id (block_insts (Fn EP) B ! j) \<notin> NonLoadUses EP)"
    from scan_NonLoadUses_None [OF le, of "NonLoadUses EP"] h
    have "(if HasNonLoadUse (PerBlockInfo EP B)
           then scan_NonLoadUses (NonLoadUses EP) (rev (take pos (block_insts (Fn EP) B)))
           else None) = None"
      by auto
    then show "checkDefinitelyInit EP I =
         Inr (EP\<lparr>PerBlockInfo :=
                  fst (isLiveOut_preds (Fn EP) (PerBlockInfo EP) (pred_blocks (Fn EP) B))\<rparr>,
              if spec_every_pred_live_out (Fn EP) (PerBlockInfo EP) (pred_blocks (Fn EP) B)
              then DI_Yes else DI_No)"
      using f by (simp add: checkDefinitelyInit_def Let_def isLiveOut_preds_every)
  }
qed

theorem checkDefinitelyInit_answer_witness:
  "find_inst (Fn ex_diamond_EP) 12 = Some (1, 1)
   \<and> HasNonLoadUse (PerBlockInfo ex_diamond_EP 1)
   \<and> spec_nearest_NonLoadUse (NonLoadUses ex_diamond_EP) (block_insts (Fn ex_diamond_EP) 1) 1 0
   \<and> checkDefinitelyInit ex_diamond_EP 12 = Inr (ex_diamond_EP, DI_Yes)
   \<and> find_inst (Fn ex_diamond_EP) 13 = Some (3, 0)
   \<and> \<not> HasNonLoadUse (PerBlockInfo ex_diamond_EP 3)
   \<and> \<not> spec_every_pred_live_out (Fn ex_diamond_EP) (PerBlockInfo ex_diamond_EP)
         (pred_blocks (Fn ex_diamond_EP) 3)
   \<and> checkDefinitelyInit ex_diamond_EP 13 =
       Inr (ex_diamond_EP\<lparr>PerBlockInfo :=
              fst (isLiveOut_preds ex_diamond ex_diamond_info [1, 2])\<rparr>, DI_No)"
proof -
  have f4: "find_inst (Fn ex_diamond_EP) 12 = Some (1, 1)"
    and f3: "find_inst (Fn ex_diamond_EP) 13 = Some (3, 0)"
    by (simp_all add: ex_diamond_EP_def ex_diamond_find)
  have h1: "HasNonLoadUse (PerBlockInfo ex_diamond_EP 1)"
    and h3: "\<not> HasNonLoadUse (PerBlockInfo ex_diamond_EP 3)"
    by (simp_all add: ex_diamond_EP_def ex_diamond_info_def default_LiveOutBlockState_def)
  have n: "spec_nearest_NonLoadUse (NonLoadUses ex_diamond_EP) (block_insts (Fn ex_diamond_EP) 1) 1 0"
    by (auto simp: spec_nearest_NonLoadUse_def ex_diamond_EP_def block_insts_def ex_diamond_def)
  have p: "pred_blocks (Fn ex_diamond_EP) 3 = [1, 2]"
    by (simp add: pred_blocks_def ex_diamond_EP_def ex_diamond_def)
  have e: "\<not> spec_every_pred_live_out (Fn ex_diamond_EP) (PerBlockInfo ex_diamond_EP)
         (pred_blocks (Fn ex_diamond_EP) 3)"
    unfolding p using ex_diamond_every_pred by (simp add: ex_diamond_EP_def)
  have i: "inst_id (block_insts (Fn ex_diamond_EP) 1 ! 0) \<noteq> TheMemory ex_diamond_EP"
    by (simp add: ex_diamond_EP_def block_insts_def ex_diamond_def)
  from checkDefinitelyInit_answer [OF f4, of 0] h1 n i
  have a: "checkDefinitelyInit ex_diamond_EP 12 = Inr (ex_diamond_EP, DI_Yes)" by simp
  from checkDefinitelyInit_answer [OF f3, of 0] h3 e
  have b: "checkDefinitelyInit ex_diamond_EP 13 =
       Inr (ex_diamond_EP\<lparr>PerBlockInfo :=
              fst (isLiveOut_preds ex_diamond ex_diamond_info [1, 2])\<rparr>, DI_No)"
    using p by (simp add: ex_diamond_EP_def)
  from f4 h1 n a f3 h3 e b show ?thesis by blast
qed

text \<open>
  Claim C5. \<open>isLiveOut\<close> returns a cached live-out or not-live-out answer as it is; a
  block that is being computed answers true; an unknown block is marked as being
  computed and its predecessors are asked: it answers true exactly when every
  predecessor does, and is then finalized live out, otherwise not live out. The
  constructor marks every block that contains a non-load use live out, the allocation's
  block not live out unless it contains a non-load use, and leaves every other block
  unknown.
\<close>

theorem liveOut_tristate_and_initial_marks:
  "(Availability (PBI BB) = IsLiveOut \<longrightarrow> isLiveOut F PBI BB = (PBI, True))
   \<and> (Availability (PBI BB) = IsNotLiveOut \<longrightarrow> isLiveOut F PBI BB = (PBI, False))
   \<and> (Availability (PBI BB) = IsComputingLiveOut \<longrightarrow> isLiveOut F PBI BB = (PBI, True))
   \<and> (Availability (PBI BB) = IsUnknown \<longrightarrow>
        snd (isLiveOut F PBI BB)
          = spec_every_pred_live_out F (setAvailability PBI BB IsComputingLiveOut) (pred_blocks F BB)
        \<and> fst (isLiveOut F PBI BB)
          = setAvailability
              (fst (isLiveOut_preds F (setAvailability PBI BB IsComputingLiveOut) (pred_blocks F BB)))
              BB (if snd (isLiveOut F PBI BB) then IsLiveOut else IsNotLiveOut))
   \<and> (new_ElementPromotion F D M E U = Inr EP \<longrightarrow>
        (\<forall>b. Availability (PerBlockInfo EP b) =
           (if spec_block_has_non_load_use F U b then IsLiveOut
            else if getParent F M = Some b then IsNotLiveOut else IsUnknown)))"
proof (intro conjI impI allI)
  assume "Availability (PBI BB) = IsUnknown"
  then show "snd (isLiveOut F PBI BB)
      = spec_every_pred_live_out F (setAvailability PBI BB IsComputingLiveOut) (pred_blocks F BB)"
    by (simp add: isLiveOut.simps Let_def isLiveOut_preds_every)
next
  assume "Availability (PBI BB) = IsUnknown"
  then show "fst (isLiveOut F PBI BB)
      = setAvailability
          (fst (isLiveOut_preds F (setAvailability PBI BB IsComputingLiveOut) (pred_blocks F BB)))
          BB (if snd (isLiveOut F PBI BB) then IsLiveOut else IsNotLiveOut)"
    by (simp add: isLiveOut.simps Let_def)
next
  fix b
  assume "new_ElementPromotion F D M E U = Inr EP"
  then show "Availability (PerBlockInfo EP b) =
           (if spec_block_has_non_load_use F U b then IsLiveOut
            else if getParent F M = Some b then IsNotLiveOut else IsUnknown)"
    by (rule new_ElementPromotion_Availability)
qed (simp_all add: isLiveOut.simps)

theorem liveOut_tristate_and_initial_marks_witness:
  "Availability (ex_diamond_info 1) = IsLiveOut
   \<and> isLiveOut ex_diamond ex_diamond_info 1 = (ex_diamond_info, True)
   \<and> Availability (ex_diamond_info 0) = IsNotLiveOut
   \<and> isLiveOut ex_diamond ex_diamond_info 0 = (ex_diamond_info, False)
   \<and> Availability (setAvailability ex_diamond_info 3 IsComputingLiveOut 3) = IsComputingLiveOut
   \<and> isLiveOut ex_diamond (setAvailability ex_diamond_info 3 IsComputingLiveOut) 3
       = (setAvailability ex_diamond_info 3 IsComputingLiveOut, True)
   \<and> Availability (ex_diamond_info 2) = IsUnknown
   \<and> \<not> snd (isLiveOut ex_diamond ex_diamond_info 2)
   \<and> Availability (fst (isLiveOut ex_diamond ex_diamond_info 2) 2) = IsNotLiveOut
   \<and> new_ElementPromotion ex_diamond [] 10 0 ex_diamond_uses = Inr ex_diamond_EP
   \<and> Availability (PerBlockInfo ex_diamond_EP 0) = IsNotLiveOut
   \<and> Availability (PerBlockInfo ex_diamond_EP 1) = IsLiveOut
   \<and> Availability (PerBlockInfo ex_diamond_EP 2) = IsUnknown"
proof -
  note t = liveOut_tristate_and_initial_marks
  have a1: "Availability (ex_diamond_info 1) = IsLiveOut"
    and a0: "Availability (ex_diamond_info 0) = IsNotLiveOut"
    and a2: "Availability (ex_diamond_info 2) = IsUnknown"
    and a3: "Availability (setAvailability ex_diamond_info 3 IsComputingLiveOut 3) = IsComputingLiveOut"
    by (simp_all add: ex_diamond_info_def default_LiveOutBlockState_def setAvailability_def)
  have r1: "isLiveOut ex_diamond ex_diamond_info 1 = (ex_diamond_info, True)"
    using t [of ex_diamond_info 1 ex_diamond] a1 by blast
  have r0: "isLiveOut ex_diamond ex_diamond_info 0 = (ex_diamond_info, False)"
    using t [of ex_diamond_info 0 ex_diamond] a0 by blast
  have r3: "isLiveOut ex_diamond (setAvailability ex_diamond_info 3 IsComputingLiveOut) 3
       = (setAvailability ex_diamond_info 3 IsComputingLiveOut, True)"
    using t [of "setAvailability ex_diamond_info 3 IsComputingLiveOut" 3 ex_diamond] a3 by blast
  have s2: "\<not> snd (isLiveOut ex_diamond ex_diamond_info 2)"
    by (simp add: ex_diamond_isLiveOut_2)
  have "fst (isLiveOut ex_diamond ex_diamond_info 2)
      = setAvailability
          (fst (isLiveOut_preds ex_diamond (setAvailability ex_diamond_info 2 IsComputingLiveOut)
                 (pred_blocks ex_diamond 2)))
          2 (if snd (isLiveOut ex_diamond ex_diamond_info 2) then IsLiveOut else IsNotLiveOut)"
    using t [of ex_diamond_info 2 ex_diamond] a2 by blast
  then have f2: "Availability (fst (isLiveOut ex_diamond ex_diamond_info 2) 2) = IsNotLiveOut"
    using s2 by (simp add: setAvailability_def)
  have n: "new_ElementPromotion ex_diamond [] 10 0 ex_diamond_uses = Inr ex_diamond_EP"
    by (rule ex_diamond_new)
  have sp: "\<not> spec_block_has_non_load_use ex_diamond ex_diamond_uses 0"
    "\<not> spec_block_has_non_load_use ex_diamond ex_diamond_uses 2"
    by (auto simp: spec_block_has_non_load_use_def ex_diamond_uses_def getParent_def ex_diamond_find)
  have "(Some 11, Store_Use) \<in> set ex_diamond_uses \<and> Store_Use \<noteq> Load_Use
      \<and> getParent ex_diamond 11 = Some 1"
    by (simp add: ex_diamond_uses_def getParent_def ex_diamond_find)
  then have sp1: "spec_block_has_non_load_use ex_diamond ex_diamond_uses 1"
    unfolding spec_block_has_non_load_use_def by blast
  have gp: "getParent ex_diamond 10 = Some 0" by (simp add: getParent_def ex_diamond_find)
  have all: "\<forall>b. Availability (PerBlockInfo ex_diamond_EP b) =
           (if spec_block_has_non_load_use ex_diamond ex_diamond_uses b then IsLiveOut
            else if getParent ex_diamond 10 = Some b then IsNotLiveOut else IsUnknown)"
    using t [of ex_diamond_info 0 ex_diamond "[]" 10 0 ex_diamond_uses ex_diamond_EP] n
    by blast
  have p0: "Availability (PerBlockInfo ex_diamond_EP 0) = IsNotLiveOut"
    and p1: "Availability (PerBlockInfo ex_diamond_EP 1) = IsLiveOut"
    and p2: "Availability (PerBlockInfo ex_diamond_EP 2) = IsUnknown"
    using all sp sp1 gp by simp_all
  from a1 r1 a0 r0 a3 r3 a2 s2 f2 n p0 p1 p2 show ?thesis by blast
qed



section \<open>The lowering of assign\<close>

text \<open>
  Claim C4. Lowering an assign of \<open>Src\<close> to \<open>Dest\<close> that stands at position \<open>p\<close> of block
  \<open>BB\<close> puts the new instructions in its place and erases it; no other block changes.
  The new instructions are a single store of \<open>Src\<close> to \<open>Dest\<close> when the flag is true or the
  type of the destination is trivial; otherwise a load of \<open>Dest\<close>, the store, and what type
  lowering emits to destroy the loaded value, in that order. They are fresh instructions
  at the location of the assign.
\<close>

theorem LowerAssignInstruction_emits:
  assumes f: "find_inst F Inst = Some (BB, p)"
    and a: "inst (block_insts F BB ! p) = Assign Src Dest"
  shows "\<exists>F' new. LowerAssignInstruction getTypeLowering F Inst isInitialization = Inr (F', new)
     \<and> block_insts F' BB = take p (block_insts F BB) @ new @ drop (Suc p) (block_insts F BB)
     \<and> (\<forall>b. b \<noteq> BB \<longrightarrow> block_insts F' b = block_insts F b)
     \<and> map inst new =
         (if isInitialization \<or> isTrivial (getTypeLowering (vty Dest)) then [Store Src Dest]
          else [Load Dest, Store Src Dest]
               @ map (\<lambda>op. lifetime_inst op (SILValue (next_inst_id F) 0 (vty Dest)))
                   (destroy_ops (getTypeLowering (vty Dest))))
     \<and> map inst_id new = [next_inst_id F ..< next_inst_id F + length new]
     \<and> (\<forall>I\<in>set new. loc I = loc (block_insts F BB ! p))"
  using LowerAssignInstruction_result [OF assms, of getTypeLowering isInitialization] by blast

theorem LowerAssignInstruction_emits_witness:
  "find_inst ex_assign 11 = Some (0, 1)
   \<and> inst (block_insts ex_assign 0 ! 1) = Assign (SILValue 100 0 ex_Class) (SILValue 10 1 ex_Class)
   \<and> (\<exists>F' new. LowerAssignInstruction ex_TL ex_assign 11 True = Inr (F', new)
         \<and> map inst new = [Store (SILValue 100 0 ex_Class) (SILValue 10 1 ex_Class)]
         \<and> map inst (block_insts F' 0)
             = [AllocBox, Store (SILValue 100 0 ex_Class) (SILValue 10 1 ex_Class)])
   \<and> (\<exists>F' new. LowerAssignInstruction ex_TL ex_assign 11 False = Inr (F', new)
         \<and> map inst new = [Load (SILValue 10 1 ex_Class),
                            Store (SILValue 100 0 ex_Class) (SILValue 10 1 ex_Class),
                            StrongRelease (SILValue 12 0 ex_Class)]
         \<and> map inst (block_insts F' 0)
             = [AllocBox, Load (SILValue 10 1 ex_Class),
                Store (SILValue 100 0 ex_Class) (SILValue 10 1 ex_Class),
                StrongRelease (SILValue 12 0 ex_Class)])"
proof -
  have f: "find_inst ex_assign 11 = Some (0, 1)"
    by (simp add: find_inst_def ex_assign_def)
  have b: "block_insts ex_assign 0 =
      [\<lparr>inst_id = 10, inst = AllocBox, inst_ty = ex_Class,
                 loc = \<lparr>source_loc = 20, decl_name = Some ''c''\<rparr>\<rparr>,
       \<lparr>inst_id = 11, inst = Assign (SILValue 100 0 ex_Class) (SILValue 10 1 ex_Class),
                 inst_ty = no_result_ty, loc = ex_loc 21\<rparr>]"
    by (simp add: block_insts_def ex_assign_def)
  have a: "inst (block_insts ex_assign 0 ! 1)
      = Assign (SILValue 100 0 ex_Class) (SILValue 10 1 ex_Class)"
    by (simp add: b)
  have n: "next_inst_id ex_assign = 12" by (simp add: ex_assign_def)
  have tl: "\<not> isTrivial (ex_TL ex_Class)" "destroy_ops (ex_TL ex_Class) = [Op_StrongRelease]"
    by (simp_all add: ex_TL_def)
  from LowerAssignInstruction_emits [OF f a, of ex_TL True]
  have t: "\<exists>F' new. LowerAssignInstruction ex_TL ex_assign 11 True = Inr (F', new)
         \<and> map inst new = [Store (SILValue 100 0 ex_Class) (SILValue 10 1 ex_Class)]
         \<and> map inst (block_insts F' 0)
             = [AllocBox, Store (SILValue 100 0 ex_Class) (SILValue 10 1 ex_Class)]"
    by (auto simp: b)
  from LowerAssignInstruction_emits [OF f a, of ex_TL False]
  have u: "\<exists>F' new. LowerAssignInstruction ex_TL ex_assign 11 False = Inr (F', new)
         \<and> map inst new = [Load (SILValue 10 1 ex_Class),
                            Store (SILValue 100 0 ex_Class) (SILValue 10 1 ex_Class),
                            StrongRelease (SILValue 12 0 ex_Class)]
         \<and> map inst (block_insts F' 0)
             = [AllocBox, Load (SILValue 10 1 ex_Class),
                Store (SILValue 100 0 ex_Class) (SILValue 10 1 ex_Class),
                StrongRelease (SILValue 12 0 ex_Class)]"
    by (auto simp: b n tl)
  from f a t u show ?thesis by blast
qed

section \<open>Available values\<close>

lemma some_available_update:
  "k < length Result \<Longrightarrow> some_available (Result[k := Some y])"
  unfolding some_available_def by (metis option.distinct(1) set_update_memI)

lemma fill_available_some:
  "fill_available v S is (Req, Res, P) = Inr (Req', Res', P') \<Longrightarrow>
     (P \<longrightarrow> P') \<and> (some_available Res \<longrightarrow> some_available Res')
     \<and> (P' \<longrightarrow> P \<or> some_available Res') \<and> (some_available Res' \<longrightarrow> some_available Res \<or> P')"
proof (induction "is" arbitrary: Req Res P)
  case Nil
  then show ?case by simp
next
  case (Cons i "is")
  show ?case
  proof (cases "\<not> Req ! (S + i)")
    case True
    then have "fill_available v S is (Req, Res, P) = Inr (Req', Res', P')"
      using Cons.prems by (simp split: if_splits)
    from Cons.IH [OF this] show ?thesis .
  next
    case False
    then have k: "S + i < length Res"
      and "fill_available v S is (Req[S + i := False], Res[S + i := Some (v, i)], True)
            = Inr (Req', Res', P')"
      using Cons.prems by (simp_all split: if_splits)
    from Cons.IH [OF this(2)] some_available_update [OF k]
    show ?thesis by blast
  qed
qed

lemma fill_available_pointwise:
  "fill_available v S is (Req, Res, P) = Inr (Req', Res', P') \<Longrightarrow>
     length Req' = length Req \<and> length Res' = length Res
     \<and> (\<forall>k<length Req. Req' ! k = (Req ! k \<and> k \<notin> (\<lambda>i. S + i) ` set is))
     \<and> (\<forall>k<length Res. Res' ! k =
           (if k < length Req \<and> Req ! k \<and> k \<in> (\<lambda>i. S + i) ` set is then Some (v, k - S) else Res ! k))
     \<and> P' = (P \<or> (\<exists>i\<in>set is. Req ! (S + i)))"
proof (induction "is" arbitrary: Req Res P)
  case Nil
  then show ?case by simp
next
  case (Cons i "is")
  from Cons.prems have lt: "S + i < length Req" by (simp split: if_splits)
  show ?case
  proof (cases "\<not> Req ! (S + i)")
    case True
    then have "fill_available v S is (Req, Res, P) = Inr (Req', Res', P')"
      using Cons.prems by (simp split: if_splits)
    from Cons.IH [OF this] True show ?thesis by auto
  next
    case False
    then have k: "S + i < length Res"
      and "fill_available v S is (Req[S + i := False], Res[S + i := Some (v, i)], True)
            = Inr (Req', Res', P')"
      using Cons.prems by (simp_all split: if_splits)
    from Cons.IH [OF this(2)] False lt k
    show ?thesis by (auto simp: nth_list_update)
  qed
qed

lemma fill_available_succeeds:
  "\<forall>i\<in>set is. S + i < length Req \<Longrightarrow> length Res = length Req \<Longrightarrow>
     \<exists>r. fill_available v S is (Req, Res, P) = Inr r"
  by (induction "is" arbitrary: Req Res P) auto

lemma updateAvailableValues_some:
  "updateAvailableValues EP I Req Res = Inr (p, Req', Res') \<Longrightarrow>
     some_available Res' = (some_available Res \<or> p)"
proof -
  assume u: "updateAvailableValues EP I Req Res = Inr (p, Req', Res')"
  have st: "store_available (Fn EP) (TheMemory EP) v a Req Res = Inr (p, Req', Res') \<Longrightarrow>
      some_available Res' = (some_available Res \<or> p)" for v a
  proof -
    assume "store_available (Fn EP) (TheMemory EP) v a Req Res = Inr (p, Req', Res')"
    then obtain S where "fill_available v S [0 ..< getNumSubElements (vty v)] (Req, Res, False)
        = Inr (Req', Res', p)"
      by (auto simp: store_available_def split: sum.splits)
    from fill_available_some [OF this] show ?thesis by blast
  qed
  show ?thesis
  proof (cases "inst I")
    case (Store v a)
    then show ?thesis using u st by (simp add: updateAvailableValues_def)
  next
    case (Assign v a)
    then show ?thesis using u st by (simp add: updateAvailableValues_def)
  qed (use u in \<open>auto simp: updateAvailableValues_def\<close>)
qed

lemma scan_available_some:
  "scan_available EP is (Found, Req, Res) = Inr (Found', Req', Res') \<Longrightarrow>
     Found = some_available Res \<Longrightarrow> Found' = some_available Res'"
proof (induction "is" arbitrary: Found Req Res)
  case Nil
  then show ?case by auto
next
  case (Cons I "is")
  show ?case
  proof (cases "inst_id I \<in> NonLoadUses EP")
    case False
    then have "scan_available EP is (Found, Req, Res) = Inr (Found', Req', Res')"
      using Cons.prems by simp
    from Cons.IH [OF this Cons.prems(2)] show ?thesis .
  next
    case True
    then obtain p Req1 Res1 where
      u: "updateAvailableValues EP I Req Res = Inr (p, Req1, Res1)"
      using Cons.prems by (auto split: sum.splits)
    have s: "(Found \<or> p) = some_available Res1"
      using updateAvailableValues_some [OF u] Cons.prems(2) by simp
    show ?thesis
    proof (cases "none_set Req1")
      case True
      then show ?thesis using Cons.prems \<open>inst_id I \<in> NonLoadUses EP\<close> u s by simp
    next
      case False
      then have "scan_available EP is (Found \<or> p, Req1, Res1) = Inr (Found', Req', Res')"
        using Cons.prems \<open>inst_id I \<in> NonLoadUses EP\<close> u by simp
      from Cons.IH [OF this s] show ?thesis .
    qed
  qed
qed

lemma computeAvailableValues_fails_iff:
  assumes c: "computeAvailableValues EP L Req Res = Inr (failed, Req', Res')"
    and n: "\<not> none_set Req" and e: "\<not> some_available Res"
  shows "failed = (\<not> some_available Res')"
proof -
  from c n obtain BB pos where f: "find_inst (Fn EP) L = Some (BB, pos)"
    by (auto simp: computeAvailableValues_def split: option.splits)
  show ?thesis
  proof (cases "HasNonLoadUse (PerBlockInfo EP BB)")
    case False
    then show ?thesis using c n f e by (simp add: computeAvailableValues_def)
  next
    case True
    then obtain Found where
      s: "scan_available EP (rev (take pos (block_insts (Fn EP) BB))) (False, Req, Res)
            = Inr (Found, Req', Res')" and "failed = (\<not> Found)"
      using c n f by (auto simp: computeAvailableValues_def split: sum.splits)
    moreover have "Found = some_available Res'"
      using scan_available_some [OF s] e by simp
    ultimately show ?thesis by simp
  qed
qed

lemma store_available_pointwise:
  assumes a: "ComputeAccessPath (Fn EP) a (TheMemory EP) = Inr S"
    and l: "S + getNumSubElements (vty v) \<le> length Req" "length Res = length Req"
  shows "\<exists>p Req' Res'. store_available (Fn EP) (TheMemory EP) v a Req Res = Inr (p, Req', Res')
     \<and> length Req' = length Req \<and> length Res' = length Res
     \<and> (\<forall>k<length Req. Req' ! k = (Req ! k \<and> \<not> (S \<le> k \<and> k < S + getNumSubElements (vty v))))
     \<and> (\<forall>k<length Req. Res' ! k =
           (if Req ! k \<and> S \<le> k \<and> k < S + getNumSubElements (vty v)
            then Some (v, k - S) else Res ! k))
     \<and> p = (\<exists>k. S \<le> k \<and> k < S + getNumSubElements (vty v) \<and> Req ! k)"
proof -
  let ?n = "getNumSubElements (vty v)"
  have "\<forall>i\<in>set [0 ..< ?n]. S + i < length Req" using l by auto
  from fill_available_succeeds [OF this l(2), of v False]
  obtain Req' Res' p where
    fl: "fill_available v S [0 ..< ?n] (Req, Res, False) = Inr (Req', Res', p)"
    by (metis prod_cases3)
  have im: "(k \<in> (\<lambda>i. S + i) ` set [0 ..< ?n]) = (S \<le> k \<and> k < S + ?n)" for k
  proof
    assume "k \<in> (\<lambda>i. S + i) ` set [0 ..< ?n]"
    then show "S \<le> k \<and> k < S + ?n" by auto
  next
    assume "S \<le> k \<and> k < S + ?n"
    then have "k - S \<in> set [0 ..< ?n]" and "k = S + (k - S)" by auto
    then show "k \<in> (\<lambda>i. S + i) ` set [0 ..< ?n]" by (rule_tac image_eqI)
  qed
  have ex: "(\<exists>i\<in>set [0 ..< ?n]. Req ! (S + i)) = (\<exists>k. S \<le> k \<and> k < S + ?n \<and> Req ! k)"
  proof
    assume "\<exists>i\<in>set [0 ..< ?n]. Req ! (S + i)"
    then obtain i where "i < ?n" "Req ! (S + i)" by auto
    then show "\<exists>k. S \<le> k \<and> k < S + ?n \<and> Req ! k" by (intro exI [of _ "S + i"]) simp
  next
    assume "\<exists>k. S \<le> k \<and> k < S + ?n \<and> Req ! k"
    then obtain k where "S \<le> k" "k < S + ?n" "Req ! k" by blast
    then have "k - S \<in> set [0 ..< ?n]" "Req ! (S + (k - S))" by auto
    then show "\<exists>i\<in>set [0 ..< ?n]. Req ! (S + i)" by blast
  qed
  from fill_available_pointwise [OF fl] l(2)
  have "length Req' = length Req" "length Res' = length Res"
    "\<forall>k<length Req. Req' ! k = (Req ! k \<and> \<not> (S \<le> k \<and> k < S + ?n))"
    "\<forall>k<length Req. Res' ! k = (if Req ! k \<and> S \<le> k \<and> k < S + ?n then Some (v, k - S) else Res ! k)"
    "p = (\<exists>k. S \<le> k \<and> k < S + ?n \<and> Req ! k)"
    unfolding im ex by simp_all
  moreover have "store_available (Fn EP) (TheMemory EP) v a Req Res = Inr (p, Req', Res')"
    using a fl by (simp add: store_available_def)
  ultimately show ?thesis by blast
qed

subsection \<open>The scan and the wording\<close>

lemma found_split:
  fixes N :: nat and g :: "nat \<Rightarrow> 'a option"
  assumes q1: "\<forall>k<N. Q k = (R k \<and> \<not> (S \<le> k \<and> k < S + n))"
    and rg: "\<forall>k. S \<le> k \<and> k < S + n \<longrightarrow> k < N"
  shows "((\<exists>k. S \<le> k \<and> k < S + n \<and> R k) \<or> (\<exists>k<N. Q k \<and> g k \<noteq> None))
       = (\<exists>k<N. R k \<and> (if S \<le> k \<and> k < S + n then Some (f k) else g k) \<noteq> None)"
proof
  assume "(\<exists>k. S \<le> k \<and> k < S + n \<and> R k) \<or> (\<exists>k<N. Q k \<and> g k \<noteq> None)"
  then show "\<exists>k<N. R k \<and> (if S \<le> k \<and> k < S + n then Some (f k) else g k) \<noteq> None"
  proof
    assume "\<exists>k. S \<le> k \<and> k < S + n \<and> R k"
    then obtain k where k: "S \<le> k \<and> k < S + n" "R k" by blast
    with rg have "k < N" by blast
    with k have "k < N \<and> R k \<and> (if S \<le> k \<and> k < S + n then Some (f k) else g k) \<noteq> None"
      by simp
    then show ?thesis by (rule_tac x = k in exI)
  next
    assume "\<exists>k<N. Q k \<and> g k \<noteq> None"
    then obtain k where k: "k < N" "Q k" "g k \<noteq> None" by blast
    with q1 have "R k \<and> \<not> (S \<le> k \<and> k < S + n)" by blast
    with k have "k < N \<and> R k \<and> (if S \<le> k \<and> k < S + n then Some (f k) else g k) \<noteq> None"
      by simp
    then show ?thesis by (rule_tac x = k in exI)
  qed
next
  assume "\<exists>k<N. R k \<and> (if S \<le> k \<and> k < S + n then Some (f k) else g k) \<noteq> None"
  then obtain k where k: "k < N" "R k"
    "(if S \<le> k \<and> k < S + n then Some (f k) else g k) \<noteq> None" by blast
  show "(\<exists>k. S \<le> k \<and> k < S + n \<and> R k) \<or> (\<exists>k<N. Q k \<and> g k \<noteq> None)"
  proof (cases "S \<le> k \<and> k < S + n")
    case True
    with k have "S \<le> k \<and> k < S + n \<and> R k" by simp
    then show ?thesis by blast
  next
    case False
    with k q1 have "k < N \<and> Q k \<and> g k \<noteq> None" by simp
    then show ?thesis by blast
  qed
qed

lemma found_all:
  fixes N :: nat and g :: "nat \<Rightarrow> 'a option"
  assumes d: "\<forall>k<N. R k \<longrightarrow> S \<le> k \<and> k < S + n"
    and rg: "\<forall>k. S \<le> k \<and> k < S + n \<longrightarrow> k < N"
  shows "(\<exists>k. S \<le> k \<and> k < S + n \<and> R k)
       = (\<exists>k<N. R k \<and> (if S \<le> k \<and> k < S + n then Some (f k) else g k) \<noteq> None)"
proof
  assume "\<exists>k. S \<le> k \<and> k < S + n \<and> R k"
  then obtain k where k: "S \<le> k \<and> k < S + n" "R k" by blast
  with rg have "k < N" by blast
  with k have "k < N \<and> R k \<and> (if S \<le> k \<and> k < S + n then Some (f k) else g k) \<noteq> None"
    by simp
  then show "\<exists>k<N. R k \<and> (if S \<le> k \<and> k < S + n then Some (f k) else g k) \<noteq> None"
    by (rule_tac x = k in exI)
next
  assume "\<exists>k<N. R k \<and> (if S \<le> k \<and> k < S + n then Some (f k) else g k) \<noteq> None"
  then obtain k where k: "k < N" "R k" by blast
  with d have "S \<le> k \<and> k < S + n \<and> R k" by blast
  then show "\<exists>k. S \<le> k \<and> k < S + n \<and> R k" by (rule_tac x = k in exI)
qed

lemma span_image: "(k \<in> (\<lambda>i. S + i) ` set [0 ..< n]) = (S \<le> k \<and> k < S + (n::nat))"
proof
  assume "k \<in> (\<lambda>i. S + i) ` set [0 ..< n]"
  then show "S \<le> k \<and> k < S + n" by auto
next
  assume "S \<le> k \<and> k < S + n"
  then have "k - S \<in> set [0 ..< n]" and "k = S + (k - S)" by auto
  then show "k \<in> (\<lambda>i. S + i) ` set [0 ..< n]" by (rule_tac image_eqI)
qed

lemma fill_available_in_range:
  "fill_available v S is (Req, Res, P) = Inr r \<Longrightarrow> \<forall>i\<in>set is. S + i < length Req"
proof (induction "is" arbitrary: Req Res P)
  case Nil
  then show ?case by simp
next
  case (Cons i "is")
  from Cons.prems have lt: "S + i < length Req" by (simp split: if_splits)
  show ?case
  proof (cases "\<not> Req ! (S + i)")
    case True
    then have "fill_available v S is (Req, Res, P) = Inr r"
      using Cons.prems by (simp split: if_splits)
    from Cons.IH [OF this] lt show ?thesis by simp
  next
    case False
    then have "fill_available v S is (Req[S + i := False], Res[S + i := Some (v, i)], True) = Inr r"
      using Cons.prems by (simp split: if_splits)
    from Cons.IH [OF this] lt show ?thesis by simp
  qed
qed

text \<open>What a store or assign does, when it returns.\<close>

lemma updateAvailableValues_store:
  assumes s: "is_store_or_assign (inst I)"
    and u: "updateAvailableValues EP I Req Res = Inr (p, Req1, Res1)"
  shows "\<exists>v S n. store_span EP I = Some (v, S, n)
     \<and> (\<forall>k. S \<le> k \<and> k < S + n \<longrightarrow> k < length Req)
     \<and> length Req1 = length Req \<and> length Res1 = length Res
     \<and> (\<forall>k<length Req. Req1 ! k = (Req ! k \<and> \<not> (S \<le> k \<and> k < S + n)))
     \<and> (\<forall>k<length Res. Res1 ! k =
           (if k < length Req \<and> Req ! k \<and> S \<le> k \<and> k < S + n then Some (v, k - S) else Res ! k))
     \<and> p = (\<exists>k. S \<le> k \<and> k < S + n \<and> Req ! k)"
proof -
  from s obtain v a where i: "inst I = Store v a \<or> inst I = Assign v a"
    by (cases "inst I") simp_all
  then have "updateAvailableValues EP I Req Res = store_available (Fn EP) (TheMemory EP) v a Req Res"
    by (auto simp: updateAvailableValues_def)
  with u have st: "store_available (Fn EP) (TheMemory EP) v a Req Res = Inr (p, Req1, Res1)"
    by simp
  then obtain S where a: "ComputeAccessPath (Fn EP) a (TheMemory EP) = Inr S"
    by (cases "ComputeAccessPath (Fn EP) a (TheMemory EP)") (simp_all add: store_available_def)
  let ?n = "getNumSubElements (vty v)"
  have f: "fill_available v S [0 ..< ?n] (Req, Res, False) = Inr (Req1, Res1, p)"
    using st a
    by (cases "fill_available v S [0 ..< ?n] (Req, Res, False)")
       (auto simp add: store_available_def)
  have sp: "store_span EP I = Some (v, S, ?n)"
    using i a by (auto simp: store_span_def value_span_def)
  have r: "\<forall>k. S \<le> k \<and> k < S + ?n \<longrightarrow> k < length Req"
  proof (intro allI impI)
    fix k
    assume "S \<le> k \<and> k < S + ?n"
    then have "k \<in> (\<lambda>i. S + i) ` set [0 ..< ?n]" by (simp only: span_image)
    then obtain i where "i \<in> set [0 ..< ?n]" "k = S + i" by blast
    with fill_available_in_range [OF f] show "k < length Req" by blast
  qed
  have ex: "(\<exists>i\<in>set [0 ..< ?n]. Req ! (S + i)) = (\<exists>k. S \<le> k \<and> k < S + ?n \<and> Req ! k)"
  proof
    assume "\<exists>i\<in>set [0 ..< ?n]. Req ! (S + i)"
    then obtain i where "i < ?n" "Req ! (S + i)" by auto
    then show "\<exists>k. S \<le> k \<and> k < S + ?n \<and> Req ! k" by (intro exI [of _ "S + i"]) simp
  next
    assume "\<exists>k. S \<le> k \<and> k < S + ?n \<and> Req ! k"
    then obtain k where "S \<le> k" "k < S + ?n" "Req ! k" by blast
    then have "k - S \<in> set [0 ..< ?n]" "Req ! (S + (k - S))" by auto
    then show "\<exists>i\<in>set [0 ..< ?n]. Req ! (S + i)" by blast
  qed
  note fp = fill_available_pointwise [OF f, unfolded span_image ex]
  have c1: "length Req1 = length Req" and c2: "length Res1 = length Res"
    and c3: "\<forall>k<length Req. Req1 ! k = (Req ! k \<and> \<not> (S \<le> k \<and> k < S + ?n))"
    and c4: "\<forall>k<length Res. Res1 ! k =
       (if k < length Req \<and> Req ! k \<and> S \<le> k \<and> k < S + ?n then Some (v, k - S) else Res ! k)"
    and c5: "p = (\<exists>k. S \<le> k \<and> k < S + ?n \<and> Req ! k)"
    using fp by simp_all
  show ?thesis
    apply (rule exI [of _ v], rule exI [of _ S], rule exI [of _ "?n"])
    apply (intro conjI)
    apply (rule sp, rule r, rule c1, rule c2, rule c3, rule c4, rule c5)
    done
qed

lemma updateAvailableValues_other:
  "\<not> is_store_or_assign (inst I) \<Longrightarrow> updateAvailableValues EP I Req Res = Inr (False, [], Res)"
  by (cases "inst I") (simp_all add: updateAvailableValues_def)

lemma none_set_iff: "none_set Req = (\<forall>k<length Req. \<not> Req ! k)"
  by (auto simp: none_set_def in_set_conv_nth)

text \<open>The scan against the wording: every demanded sub-element gets the value of its
  provider, and a value was found when some demanded sub-element has a provider.\<close>

lemma scan_available_provider:
  "scan_available EP is (Found, Req, Res) = Inr (Found', Req', Res') \<Longrightarrow>
   length Res = length Req \<Longrightarrow>
     length Res' = length Res
     \<and> (\<forall>k<length Req. Res' ! k =
          (if Req ! k then (case provider EP (visible_stores EP is) k of
                              Some x \<Rightarrow> Some x | None \<Rightarrow> Res ! k)
           else Res ! k))
     \<and> Found' = (Found \<or> (\<exists>k<length Req. Req ! k \<and> provider EP (visible_stores EP is) k \<noteq> None))"
proof (induction "is" arbitrary: Found Req Res)
  case Nil
  then show ?case by (simp add: visible_stores_def)
next
  case (Cons I "is")
  let ?prov = "provider EP (visible_stores EP is)"
  show ?case
  proof (cases "inst_id I \<in> NonLoadUses EP")
    case False
    then have "scan_available EP is (Found, Req, Res) = Inr (Found', Req', Res')"
      and "visible_stores EP (I # is) = visible_stores EP is"
      using Cons.prems by (simp_all add: visible_stores_def)
    with Cons.IH [OF this(1) Cons.prems(2)] show ?thesis by simp
  next
    case True
    then obtain p Req1 Res1 where
      u: "updateAvailableValues EP I Req Res = Inr (p, Req1, Res1)"
      using Cons.prems(1)
      by (cases "updateAvailableValues EP I Req Res") auto
    show ?thesis
    proof (cases "is_store_or_assign (inst I)")
      case False
      have "visible_stores EP (I # is) = []"
        using True False by (simp add: visible_stores_def)
      moreover have "Found' = Found \<and> Res' = Res"
        using Cons.prems(1) True updateAvailableValues_other [OF False, of EP Req Res]
        by (simp add: none_set_def)
      ultimately show ?thesis by simp
    next
      case s: True
      from updateAvailableValues_store [OF s u]
      obtain v S n where
        sp: "store_span EP I = Some (v, S, n)"
        and rg: "\<forall>k. S \<le> k \<and> k < S + n \<longrightarrow> k < length Req"
        and l1: "length Req1 = length Req" "length Res1 = length Res"
        and q1: "\<forall>k<length Req. Req1 ! k = (Req ! k \<and> \<not> (S \<le> k \<and> k < S + n))"
        and r1: "\<forall>k<length Res. Res1 ! k =
           (if k < length Req \<and> Req ! k \<and> S \<le> k \<and> k < S + n then Some (v, k - S) else Res ! k)"
        and pp: "p = (\<exists>k. S \<le> k \<and> k < S + n \<and> Req ! k)"
        by (elim exE conjE) (rule that)
      have vs: "visible_stores EP (I # is) = I # visible_stores EP is"
        using True s by (simp add: visible_stores_def)
      have pr: "provider EP (visible_stores EP (I # is)) =
          (\<lambda>k. if S \<le> k \<and> k < S + n then Some (v, k - S) else ?prov k)"
        by (rule ext) (simp add: vs sp)
      show ?thesis
      proof (cases "none_set Req1")
        case n: True
        then have e: "Found' = (Found \<or> p)" "Res' = Res1"
          using Cons.prems(1) True u by simp_all
        have d: "\<forall>k<length Req. Req ! k \<longrightarrow> S \<le> k \<and> k < S + n"
        proof (intro allI impI)
          fix k
          assume k: "k < length Req" "Req ! k"
          then have "\<not> Req1 ! k" using n l1 by (simp add: none_set_iff)
          with q1 k show "S \<le> k \<and> k < S + n" by blast
        qed
        have a: "\<forall>k<length Req. Res' ! k =
          (if Req ! k
           then (case (if S \<le> k \<and> k < S + n then Some (v, k - S) else ?prov k) of
                   Some x \<Rightarrow> Some x | None \<Rightarrow> Res ! k)
           else Res ! k)"
        proof (intro allI impI)
          fix k
          assume k: "k < length Req"
          then have r: "Res1 ! k =
              (if Req ! k \<and> S \<le> k \<and> k < S + n then Some (v, k - S) else Res ! k)"
            using r1 Cons.prems(2) by simp
          show "Res' ! k =
            (if Req ! k
             then (case (if S \<le> k \<and> k < S + n then Some (v, k - S) else ?prov k) of
                     Some x \<Rightarrow> Some x | None \<Rightarrow> Res ! k)
             else Res ! k)"
          proof (cases "Req ! k")
            case True
            with d k have "S \<le> k \<and> k < S + n" by blast
            with True r show ?thesis by (simp add: e)
          next
            case False
            with r show ?thesis by (simp add: e)
          qed
        qed
        have "p = (\<exists>k<length Req. Req ! k \<and>
            (if S \<le> k \<and> k < S + n then Some (v, k - S) else ?prov k) \<noteq> None)"
          unfolding pp
          by (rule found_all [where R = "\<lambda>k. Req ! k" and f = "\<lambda>k. (v, k - S)"
                and g = "?prov", OF d rg])
        then have b: "Found' = (Found \<or> (\<exists>k<length Req. Req ! k \<and>
            (if S \<le> k \<and> k < S + n then Some (v, k - S) else ?prov k) \<noteq> None))"
          using e(1) by simp
        have c: "length Res' = length Res" using e l1 by simp
        show ?thesis
          unfolding pr
          apply (intro conjI)
          apply (rule c, rule a, rule b)
          done
      next
        case n: False
        then have c: "scan_available EP is (Found \<or> p, Req1, Res1) = Inr (Found', Req', Res')"
          using Cons.prems(1) True u by simp
        have l: "length Res1 = length Req1" using l1 Cons.prems(2) by simp
        note ih = Cons.IH [OF c l]
        note h1 = ih [THEN conjunct1]
        note h2 = ih [THEN conjunct2, THEN conjunct1]
        note h3 = ih [THEN conjunct2, THEN conjunct2]
        have a: "\<forall>k<length Req. Res' ! k =
          (if Req ! k
           then (case (if S \<le> k \<and> k < S + n then Some (v, k - S) else ?prov k) of
                   Some x \<Rightarrow> Some x | None \<Rightarrow> Res ! k)
           else Res ! k)"
        proof (intro allI impI)
          fix k
          assume k: "k < length Req"
          then have r: "Res1 ! k =
              (if Req ! k \<and> S \<le> k \<and> k < S + n then Some (v, k - S) else Res ! k)"
            using r1 Cons.prems(2) by simp
          have q: "Req1 ! k = (Req ! k \<and> \<not> (S \<le> k \<and> k < S + n))"
            using q1 k by blast
          have h: "Res' ! k =
              (if Req1 ! k then (case ?prov k of Some x \<Rightarrow> Some x | None \<Rightarrow> Res1 ! k)
               else Res1 ! k)"
            using h2 k l1 by simp
          show "Res' ! k =
            (if Req ! k
             then (case (if S \<le> k \<and> k < S + n then Some (v, k - S) else ?prov k) of
                     Some x \<Rightarrow> Some x | None \<Rightarrow> Res ! k)
             else Res ! k)"
          proof (cases "Req ! k")
            case False
            with h q r show ?thesis by simp
          next
            case True
            show ?thesis
            proof (cases "S \<le> k \<and> k < S + n")
              case s: True
              with True h q r show ?thesis by simp
            next
              case s: False
              with True q have q': "Req1 ! k" by simp
              from s True r have r': "Res1 ! k = Res ! k" by auto
              show ?thesis
                using True s h q' r' by (cases "?prov k") auto
            qed
          qed
        qed
        have eq: "((\<exists>k. S \<le> k \<and> k < S + n \<and> Req ! k)
              \<or> (\<exists>k<length Req. Req1 ! k \<and> ?prov k \<noteq> None))
            = (\<exists>k<length Req. Req ! k \<and>
                (if S \<le> k \<and> k < S + n then Some (v, k - S) else ?prov k) \<noteq> None)"
          by (rule found_split [where R = "\<lambda>k. Req ! k" and Q = "\<lambda>k. Req1 ! k"
                and f = "\<lambda>k. (v, k - S)" and g = "?prov", OF q1 rg])
        have "Found' = (Found \<or> ((\<exists>k. S \<le> k \<and> k < S + n \<and> Req ! k)
              \<or> (\<exists>k<length Req. Req1 ! k \<and> ?prov k \<noteq> None)))"
          using h3 unfolding pp l1 by (simp only: disj_assoc)
        then have b: "Found' = (Found \<or> (\<exists>k<length Req. Req ! k \<and>
            (if S \<le> k \<and> k < S + n then Some (v, k - S) else ?prov k) \<noteq> None))"
          unfolding eq .
        have c: "length Res' = length Res" using h1 l1 by simp
        show ?thesis
          unfolding pr
          apply (intro conjI)
          apply (rule c, rule a, rule b)
          done
      qed
    qed
  qed
qed

lemma scan_available_returns:
  "list_all (store_in_range EP (length Req)) is \<Longrightarrow> length Res = length Req \<Longrightarrow>
   \<exists>r. scan_available EP is (Found, Req, Res) = Inr r"
proof (induction "is" arbitrary: Found Req Res)
  case Nil
  then show ?case by simp
next
  case (Cons I "is")
  show ?case
  proof (cases "inst_id I \<in> NonLoadUses EP")
    case False
    then show ?thesis using Cons by simp
  next
    case True
    show ?thesis
    proof (cases "is_store_or_assign (inst I)")
      case False
      then show ?thesis
        using True updateAvailableValues_other [OF False, of EP Req Res]
        by (simp add: none_set_def)
    next
      case s: True
      then obtain v a where i: "inst I = Store v a \<or> inst I = Assign v a"
        by (cases "inst I") simp_all
      have "store_in_range EP (length Req) I" using Cons.prems(1) by simp
      with True s obtain v' S n where
        sp: "store_span EP I = Some (v', S, n)" and le: "S + n \<le> length Req"
        by (cases "store_span EP I") (auto simp: store_in_range_def)
      from sp i have a: "ComputeAccessPath (Fn EP) a (TheMemory EP) = Inr S"
        and n: "n = getNumSubElements (vty v)"
        by (auto simp: store_span_def value_span_def split: sum.splits)
      have le': "S + getNumSubElements (vty v) \<le> length Req" using le n by simp
      from store_available_pointwise [OF a le' Cons.prems(2)]
      obtain p Req1 Res1 where
        st: "store_available (Fn EP) (TheMemory EP) v a Req Res = Inr (p, Req1, Res1)"
        and l: "length Req1 = length Req" "length Res1 = length Res"
        by (elim exE conjE) (rule that)
      have u: "updateAvailableValues EP I Req Res = Inr (p, Req1, Res1)"
        using i st by (auto simp: updateAvailableValues_def)
      have "list_all (store_in_range EP (length Req1)) is" using Cons.prems(1) l by simp
      moreover have "length Res1 = length Req1" using l Cons.prems(2) by simp
      ultimately have "\<exists>r. scan_available EP is (Found \<or> p, Req1, Res1) = Inr r"
        by (rule Cons.IH)
      then obtain r where r: "scan_available EP is (Found \<or> p, Req1, Res1) = Inr r" by blast
      show ?thesis
      proof (cases "none_set Req1")
        case True
        then show ?thesis using \<open>inst_id I \<in> NonLoadUses EP\<close> u by simp
      next
        case False
        then show ?thesis using \<open>inst_id I \<in> NonLoadUses EP\<close> u r by (cases r) auto
      qed
    qed
  qed
qed

text \<open>
  Claim C2 as stated fails. In \<open>ex_reload\<close> the box holds a struct of two stored
  properties; it is initialized by a \<open>copy_addr\<close>, a store then fills the first property,
  and a load of the whole struct follows in the same block. The collector records the
  three uses, the checks of \<open>doIt\<close> diagnose nothing and leave the function as it is, and
  \<open>promoteLoad\<close> demands both bits. The scan fills bit 0 from the store and then meets
  the \<open>copy_addr\<close>, which clears the demanded set: bit 1 was never satisfied, and the
  result is success (false), with no available value for sub-element 1. The pass
  replaces the load by a struct of the stored value and a new load of the second property.
\<close>

theorem computeAvailableValues_counterexample:
  "collectUses 5 False False \<lparr>CFn = ex_reload, CUses = [[]]\<rparr> (SILValue 10 1 ex_Pair) 0
     = Some (Inr \<lparr>CFn = ex_reload, CUses = [ex_reload_uses]\<rparr>)
   \<and> (case new_ElementPromotion ex_reload [] 10 0 ex_reload_uses of
         Inl e \<Rightarrow> False
       | Inr EP \<Rightarrow>
           (case doIt_phase1 ex_TL EP 0 of
              Inl e \<Rightarrow> False
            | Inr (EP', returned) \<Rightarrow>
                \<not> returned \<and> Fn EP' = ex_reload \<and> Diags EP' = []
                \<and> \<not> none_set [True, True]
                \<and> computeAvailableValues EP' 14 [True, True] [None, None]
                    = Inr (False, [], [Some (SILValue 100 0 ex_Int, 0), None])))
   \<and> performSILDefiniteInitialization 10 ex_TL [ex_reload] []
       = Some (Inr ([ex_reload_promoted], []))"
proof -
  have "collectUses 5 False False \<lparr>CFn = ex_reload, CUses = [[]]\<rparr> (SILValue 10 1 ex_Pair) 0
     = Some (Inr \<lparr>CFn = ex_reload, CUses = [ex_reload_uses]\<rparr>)"
    by code_simp
  moreover have "(case new_ElementPromotion ex_reload [] 10 0 ex_reload_uses of
         Inl e \<Rightarrow> False
       | Inr EP \<Rightarrow>
           (case doIt_phase1 ex_TL EP 0 of
              Inl e \<Rightarrow> False
            | Inr (EP', returned) \<Rightarrow>
                \<not> returned \<and> Fn EP' = ex_reload \<and> Diags EP' = []
                \<and> \<not> none_set [True, True]
                \<and> computeAvailableValues EP' 14 [True, True] [None, None]
                    = Inr (False, [], [Some (SILValue 100 0 ex_Int, 0), None])))"
    by code_simp
  moreover have "performSILDefiniteInitialization 10 ex_TL [ex_reload] []
       = Some (Inr ([ex_reload_promoted], []))"
    by code_simp
  ultimately show ?thesis by (intro conjI)
qed

text \<open>
  Claim C2, as amended. \<open>computeAvailableValues\<close> returns success (false) when nothing is
  demanded. When something is demanded it returns, provided the stores and assigns
  before the load in its block write inside the vectors. What it returns is decided by
  the load's own block alone: of the instructions before the load that are in
  \<open>NonLoadUses\<close>, nearest first, the stores and assigns up to the first other instruction
  are visible, and none when the block has no non-load use. A demanded sub-element gets
  the value of the nearest visible store or assign whose span holds it, and keeps its
  entry when there is none. The result is failure (true) exactly when no demanded
  sub-element has such a provider: one filled bit makes it succeed, also when other
  demanded bits stay unsatisfied. A store or assign whose access path starts at \<open>S\<close>
  fills the demanded bits of its span with its value and the sub-element number, clears
  them, and reports whether there was one; any other non-load use empties the demanded
  set and provides nothing.
\<close>

theorem computeAvailableValues_partial_success:
  "(none_set Req \<longrightarrow> computeAvailableValues EP L Req Res = Inr (False, Req, Res))
   \<and> (\<not> none_set Req \<and> find_inst (Fn EP) L = Some (BB, pos) \<and> length Res = length Req
        \<and> list_all (store_in_range EP (length Req)) (take pos (block_insts (Fn EP) BB)) \<longrightarrow>
      (\<exists>failed Req1 Res1. computeAvailableValues EP L Req Res = Inr (failed, Req1, Res1)))
   \<and> (\<not> none_set Req \<and> find_inst (Fn EP) L = Some (BB, pos) \<and> length Res = length Req
        \<and> computeAvailableValues EP L Req Res = Inr (failed, Req1, Res1) \<longrightarrow>
      length Res1 = length Res
      \<and> (\<forall>k<length Req. Res1 ! k =
            (if Req ! k then (case provider EP (own_block_stores EP BB pos) k of
                                Some x \<Rightarrow> Some x | None \<Rightarrow> Res ! k)
             else Res ! k))
      \<and> failed = (\<not> (\<exists>k<length Req. Req ! k \<and> provider EP (own_block_stores EP BB pos) k \<noteq> None)))
   \<and> ((inst I = Store v a \<or> inst I = Assign v a)
        \<and> ComputeAccessPath (Fn EP) a (TheMemory EP) = Inr S
        \<and> S + getNumSubElements (vty v) \<le> length Req \<and> length Res = length Req \<longrightarrow>
      (\<exists>p Req' Res'. updateAvailableValues EP I Req Res = Inr (p, Req', Res')
         \<and> length Req' = length Req \<and> length Res' = length Res
         \<and> (\<forall>k<length Req. Req' ! k = (Req ! k \<and> \<not> (S \<le> k \<and> k < S + getNumSubElements (vty v))))
         \<and> (\<forall>k<length Req. Res' ! k =
               (if Req ! k \<and> S \<le> k \<and> k < S + getNumSubElements (vty v)
                then Some (v, k - S) else Res ! k))
         \<and> p = (\<exists>k. S \<le> k \<and> k < S + getNumSubElements (vty v) \<and> Req ! k)))
   \<and> ((\<forall>v a. inst I \<noteq> Store v a \<and> inst I \<noteq> Assign v a) \<longrightarrow>
        updateAvailableValues EP I Req Res = Inr (False, [], Res))"
proof -
  have c1: "(none_set Req \<longrightarrow> computeAvailableValues EP L Req Res = Inr (False, Req, Res))"
  proof (intro impI)
    assume "none_set Req"
    then show "computeAvailableValues EP L Req Res = Inr (False, Req, Res)"
      by (simp add: computeAvailableValues_def)
  qed
  have c2: "(\<not> none_set Req \<and> find_inst (Fn EP) L = Some (BB, pos) \<and> length Res = length Req
        \<and> list_all (store_in_range EP (length Req)) (take pos (block_insts (Fn EP) BB)) \<longrightarrow>
      (\<exists>failed Req1 Res1. computeAvailableValues EP L Req Res = Inr (failed, Req1, Res1)))"
  proof (intro impI)
    assume h: "\<not> none_set Req \<and> find_inst (Fn EP) L = Some (BB, pos) \<and> length Res = length Req
          \<and> list_all (store_in_range EP (length Req)) (take pos (block_insts (Fn EP) BB))"
    show "\<exists>failed Req1 Res1. computeAvailableValues EP L Req Res = Inr (failed, Req1, Res1)"
    proof (cases "HasNonLoadUse (PerBlockInfo EP BB)")
      case False
      then have "computeAvailableValues EP L Req Res = Inr (True, Req, Res)"
        using h [THEN conjunct1] h [THEN conjunct2, THEN conjunct1]
        by (simp add: computeAvailableValues_def)
      then show ?thesis by blast
    next
      case True
      have "list_all (store_in_range EP (length Req)) (rev (take pos (block_insts (Fn EP) BB)))"
        using h by simp
      from scan_available_returns [OF this, of Res False] h
      obtain r where "scan_available EP (rev (take pos (block_insts (Fn EP) BB))) (False, Req, Res)
          = Inr r" by blast
      then have "computeAvailableValues EP L Req Res
          = Inr (\<not> fst r, fst (snd r), snd (snd r))"
        using True h [THEN conjunct1] h [THEN conjunct2, THEN conjunct1]
        by (cases r) (simp add: computeAvailableValues_def)
      then show ?thesis by blast
    qed
  qed
  have c3: "(\<not> none_set Req \<and> find_inst (Fn EP) L = Some (BB, pos) \<and> length Res = length Req
        \<and> computeAvailableValues EP L Req Res = Inr (failed, Req1, Res1) \<longrightarrow>
      length Res1 = length Res
      \<and> (\<forall>k<length Req. Res1 ! k =
            (if Req ! k then (case provider EP (own_block_stores EP BB pos) k of
                                Some x \<Rightarrow> Some x | None \<Rightarrow> Res ! k)
             else Res ! k))
      \<and> failed = (\<not> (\<exists>k<length Req. Req ! k \<and> provider EP (own_block_stores EP BB pos) k \<noteq> None)))"
  proof (intro impI)
    assume h: "\<not> none_set Req \<and> find_inst (Fn EP) L = Some (BB, pos) \<and> length Res = length Req
          \<and> computeAvailableValues EP L Req Res = Inr (failed, Req1, Res1)"
    show "length Res1 = length Res
        \<and> (\<forall>k<length Req. Res1 ! k =
              (if Req ! k then (case provider EP (own_block_stores EP BB pos) k of
                                  Some x \<Rightarrow> Some x | None \<Rightarrow> Res ! k)
               else Res ! k))
        \<and> failed = (\<not> (\<exists>k<length Req. Req ! k \<and> provider EP (own_block_stores EP BB pos) k \<noteq> None))"
    proof (cases "HasNonLoadUse (PerBlockInfo EP BB)")
      case False
      then have "failed \<and> Res1 = Res"
        using h [THEN conjunct1] h [THEN conjunct2, THEN conjunct1]
          h [THEN conjunct2, THEN conjunct2, THEN conjunct2]
        by (simp add: computeAvailableValues_def)
      then show ?thesis using False by (simp add: own_block_stores_def)
    next
      case True
      let ?is = "rev (take pos (block_insts (Fn EP) BB))"
      from True h [THEN conjunct1] h [THEN conjunct2, THEN conjunct1]
        h [THEN conjunct2, THEN conjunct2, THEN conjunct2]
      obtain Found where
        s: "scan_available EP ?is (False, Req, Res) = Inr (Found, Req1, Res1)"
        and f: "failed = (\<not> Found)"
        by (cases "scan_available EP ?is (False, Req, Res)")
           (auto simp: computeAvailableValues_def)
      have l: "length Res = length Req" using h by simp
      have o: "own_block_stores EP BB pos = visible_stores EP ?is"
        using True by (simp add: own_block_stores_def)
      note sc = scan_available_provider [OF s l, folded o]
      have "Found = (\<exists>k<length Req. Req ! k \<and> provider EP (own_block_stores EP BB pos) k \<noteq> None)"
        using sc [THEN conjunct2, THEN conjunct2] by simp
      then have c3: "failed = (\<not> (\<exists>k<length Req. Req ! k
          \<and> provider EP (own_block_stores EP BB pos) k \<noteq> None))"
        using f by simp
      show ?thesis
        apply (intro conjI)
        apply (rule sc [THEN conjunct1], rule sc [THEN conjunct2, THEN conjunct1], rule c3)
        done
    qed
  qed
  have c4: "((inst I = Store v a \<or> inst I = Assign v a)
        \<and> ComputeAccessPath (Fn EP) a (TheMemory EP) = Inr S
        \<and> S + getNumSubElements (vty v) \<le> length Req \<and> length Res = length Req \<longrightarrow>
      (\<exists>p Req' Res'. updateAvailableValues EP I Req Res = Inr (p, Req', Res')
         \<and> length Req' = length Req \<and> length Res' = length Res
         \<and> (\<forall>k<length Req. Req' ! k = (Req ! k \<and> \<not> (S \<le> k \<and> k < S + getNumSubElements (vty v))))
         \<and> (\<forall>k<length Req. Res' ! k =
               (if Req ! k \<and> S \<le> k \<and> k < S + getNumSubElements (vty v)
                then Some (v, k - S) else Res ! k))
         \<and> p = (\<exists>k. S \<le> k \<and> k < S + getNumSubElements (vty v) \<and> Req ! k)))"
  proof (intro impI)
    assume h: "(inst I = Store v a \<or> inst I = Assign v a)
          \<and> ComputeAccessPath (Fn EP) a (TheMemory EP) = Inr S
          \<and> S + getNumSubElements (vty v) \<le> length Req \<and> length Res = length Req"
    then have "updateAvailableValues EP I Req Res
        = store_available (Fn EP) (TheMemory EP) v a Req Res"
      by (auto simp: updateAvailableValues_def)
    with store_available_pointwise [of EP a S v Req Res] h
    show "\<exists>p Req' Res'. updateAvailableValues EP I Req Res = Inr (p, Req', Res')
           \<and> length Req' = length Req \<and> length Res' = length Res
           \<and> (\<forall>k<length Req. Req' ! k = (Req ! k \<and> \<not> (S \<le> k \<and> k < S + getNumSubElements (vty v))))
           \<and> (\<forall>k<length Req. Res' ! k =
                 (if Req ! k \<and> S \<le> k \<and> k < S + getNumSubElements (vty v)
                  then Some (v, k - S) else Res ! k))
           \<and> p = (\<exists>k. S \<le> k \<and> k < S + getNumSubElements (vty v) \<and> Req ! k)"
      by simp
  qed
  have c5: "((\<forall>v a. inst I \<noteq> Store v a \<and> inst I \<noteq> Assign v a) \<longrightarrow>
        updateAvailableValues EP I Req Res = Inr (False, [], Res))"
  proof (intro impI)
    assume "\<forall>v a. inst I \<noteq> Store v a \<and> inst I \<noteq> Assign v a"
    then show "updateAvailableValues EP I Req Res = Inr (False, [], Res)"
      by (cases "inst I") (simp_all add: updateAvailableValues_def)
  qed
  show ?thesis
    by (intro conjI) (rule c1, rule c2, rule c3, rule c4, rule c5)
qed

theorem computeAvailableValues_partial_success_witness:
  "none_set [False, False]
   \<and> computeAvailableValues ex_reload_EP 14 [False, False] [None, None]
       = Inr (False, [False, False], [None, None])
   \<and> \<not> none_set [True, True]
   \<and> find_inst (Fn ex_reload_EP) 14 = Some (0, 4)
   \<and> list_all (store_in_range ex_reload_EP (length [True, True]))
        (take 4 (block_insts (Fn ex_reload_EP) 0))
   \<and> computeAvailableValues ex_reload_EP 14 [True, True] [None, None]
       = Inr (False, [], [Some (SILValue 100 0 ex_Int, 0), None])
   \<and> provider ex_reload_EP (own_block_stores ex_reload_EP 0 4) 0 = Some (SILValue 100 0 ex_Int, 0)
   \<and> provider ex_reload_EP (own_block_stores ex_reload_EP 0 4) 1 = None
   \<and> (\<exists>k<length [True, True]. [True, True] ! k
          \<and> provider ex_reload_EP (own_block_stores ex_reload_EP 0 4) k \<noteq> None)
   \<and> ComputeAccessPath (Fn ex_reload_EP) (SILValue 12 0 ex_Int) (TheMemory ex_reload_EP) = Inr 0
   \<and> (\<exists>p Req' Res'. updateAvailableValues ex_reload_EP
           \<lparr>inst_id = 13, inst = Store (SILValue 100 0 ex_Int) (SILValue 12 0 ex_Int),
             inst_ty = no_result_ty, loc = ex_loc 53\<rparr> [True, True] [None, None]
         = Inr (p, Req', Res')
         \<and> p \<and> \<not> Req' ! 0 \<and> Req' ! 1
         \<and> Res' ! 0 = Some (SILValue 100 0 ex_Int, 0) \<and> Res' ! 1 = None)
   \<and> updateAvailableValues ex_reload_EP
         \<lparr>inst_id = 11,
           inst = CopyAddr (SILValue 101 0 ex_Pair) (SILValue 10 1 ex_Pair) False True,
           inst_ty = no_result_ty, loc = ex_loc 51\<rparr> [False, True]
         [Some (SILValue 100 0 ex_Int, 0), None]
       = Inr (False, [], [Some (SILValue 100 0 ex_Int, 0), None])"
proof -
  note t = computeAvailableValues_partial_success
  let ?St = "\<lparr>inst_id = 13, inst = Store (SILValue 100 0 ex_Int) (SILValue 12 0 ex_Int),
             inst_ty = no_result_ty, loc = ex_loc 53\<rparr>"
  let ?Cp = "\<lparr>inst_id = 11,
           inst = CopyAddr (SILValue 101 0 ex_Pair) (SILValue 10 1 ex_Pair) False True,
           inst_ty = no_result_ty, loc = ex_loc 51\<rparr>"
  let ?prov = "provider ex_reload_EP (own_block_stores ex_reload_EP 0 4)"
  have n0: "none_set [False, False]" and n1: "\<not> none_set [True, True]"
    by (auto simp: none_set_def)
  have f: "find_inst (Fn ex_reload_EP) 14 = Some (0, 4)"
    by code_simp
  have r: "list_all (store_in_range ex_reload_EP (length [True, True]))
        (take 4 (block_insts (Fn ex_reload_EP) 0))"
    by code_simp
  have p0: "?prov 0 = Some (SILValue 100 0 ex_Int, 0)" and p1: "?prov 1 = None"
    by code_simp+
  have l: "length ([None, None] :: AvailableValues) = length [True, True]" by simp
  have c0: "computeAvailableValues ex_reload_EP 14 [False, False] [None, None]
       = Inr (False, [False, False], [None, None])"
    using t [of "[False, False]" ex_reload_EP 14 "[None, None]"] n0 by blast
  have "\<exists>failed Req1 Res1. computeAvailableValues ex_reload_EP 14 [True, True] [None, None]
       = Inr (failed, Req1, Res1)"
    using t [THEN conjunct2, THEN conjunct1, of "[True, True]" ex_reload_EP 14 0 4 "[None, None]"]
      n1 f l r by blast
  then obtain failed Req1 Res1 where
    c: "computeAvailableValues ex_reload_EP 14 [True, True] [None, None] = Inr (failed, Req1, Res1)"
    by blast
  note t3 = t [THEN conjunct2, THEN conjunct2, THEN conjunct1, THEN mp,
      of "[True, True]" ex_reload_EP 14 0 4 "[None, None]" failed Req1 Res1]
  have h3: "\<not> none_set [True, True] \<and> find_inst (Fn ex_reload_EP) 14 = Some (0, 4)
      \<and> length ([None, None] :: AvailableValues) = length [True, True]
      \<and> computeAvailableValues ex_reload_EP 14 [True, True] [None, None] = Inr (failed, Req1, Res1)"
    using n1 f l c by blast
  note s3 = t3 [OF h3]
  have fl: "failed = (\<not> (\<exists>k<length [True, True]. [True, True] ! k \<and> ?prov k \<noteq> None))"
    using s3 by blast
  have ex: "\<exists>k<length [True, True]. [True, True] ! k \<and> ?prov k \<noteq> None"
    by (rule exI [of _ 0]) (simp add: p0)
  have c1: "computeAvailableValues ex_reload_EP 14 [True, True] [None, None]
       = Inr (False, [], [Some (SILValue 100 0 ex_Int, 0), None])"
    by code_simp
  have p: "ComputeAccessPath (Fn ex_reload_EP) (SILValue 12 0 ex_Int) (TheMemory ex_reload_EP) = Inr 0"
    by code_simp
  have g: "getNumSubElements (vty (SILValue 100 0 ex_Int)) = 1" by (simp add: ex_Int_def)
  note t4 = t [THEN conjunct2, THEN conjunct2, THEN conjunct2, THEN conjunct1, THEN mp]
  have hy: "(inst ?St = Store (SILValue 100 0 ex_Int) (SILValue 12 0 ex_Int)
          \<or> inst ?St = Assign (SILValue 100 0 ex_Int) (SILValue 12 0 ex_Int))
        \<and> ComputeAccessPath (Fn ex_reload_EP) (SILValue 12 0 ex_Int) (TheMemory ex_reload_EP) = Inr 0
        \<and> 0 + getNumSubElements (vty (SILValue 100 0 ex_Int)) \<le> length [True, True]
        \<and> length ([None, None] :: AvailableValues) = length [True, True]"
    using p g by simp
  have "\<exists>p Req' Res'. updateAvailableValues ex_reload_EP ?St [True, True] [None, None]
         = Inr (p, Req', Res')
         \<and> length Req' = length [True, True] \<and> length Res' = length ([None, None] :: AvailableValues)
         \<and> (\<forall>k<length [True, True]. Req' ! k =
               ([True, True] ! k \<and> \<not> (0 \<le> k \<and> k < 0 + getNumSubElements (vty (SILValue 100 0 ex_Int)))))
         \<and> (\<forall>k<length [True, True]. Res' ! k =
               (if [True, True] ! k \<and> 0 \<le> k \<and> k < 0 + getNumSubElements (vty (SILValue 100 0 ex_Int))
                then Some (SILValue 100 0 ex_Int, k - 0) else ([None, None] :: AvailableValues) ! k))
         \<and> p = (\<exists>k. 0 \<le> k \<and> k < 0 + getNumSubElements (vty (SILValue 100 0 ex_Int))
                   \<and> [True, True] ! k)"
    by (rule t4 [OF hy])
  then obtain pr Req' Res' where
    u: "updateAvailableValues ex_reload_EP ?St [True, True] [None, None] = Inr (pr, Req', Res')"
    and rq: "\<forall>k<length [True, True]. Req' ! k =
               ([True, True] ! k \<and> \<not> (0 \<le> k \<and> k < 0 + getNumSubElements (vty (SILValue 100 0 ex_Int))))"
    and a: "\<forall>k<length [True, True]. Res' ! k =
               (if [True, True] ! k \<and> 0 \<le> k \<and> k < 0 + getNumSubElements (vty (SILValue 100 0 ex_Int))
                then Some (SILValue 100 0 ex_Int, k - 0) else ([None, None] :: AvailableValues) ! k)"
    and pp: "pr = (\<exists>k. 0 \<le> k \<and> k < 0 + getNumSubElements (vty (SILValue 100 0 ex_Int))
                   \<and> [True, True] ! k)"
    by blast
  have "pr" unfolding pp g by (intro exI [of _ 0]) simp
  moreover have "\<not> Req' ! 0" "Req' ! 1" using rq g by simp_all
  moreover have "Res' ! 0 = Some (SILValue 100 0 ex_Int, 0)" "Res' ! 1 = None"
    using a g by simp_all
  ultimately have st: "\<exists>p Req' Res'. updateAvailableValues ex_reload_EP ?St [True, True] [None, None]
         = Inr (p, Req', Res')
         \<and> p \<and> \<not> Req' ! 0 \<and> Req' ! 1
         \<and> Res' ! 0 = Some (SILValue 100 0 ex_Int, 0) \<and> Res' ! 1 = None"
    using u by blast
  have al: "updateAvailableValues ex_reload_EP ?Cp [False, True]
         [Some (SILValue 100 0 ex_Int, 0), None]
       = Inr (False, [], [Some (SILValue 100 0 ex_Int, 0), None])"
    by (rule t [THEN conjunct2, THEN conjunct2, THEN conjunct2, THEN conjunct2, THEN mp]) simp
  show ?thesis
    apply (intro conjI)
    apply (rule n0, rule c0, rule n1, rule f, rule r, rule c1, rule p0, rule p1, rule ex, rule p,
           rule st, rule al)
    done
qed

section \<open>Diagnostics of the promotion of an element\<close>

lemma diagnoseInitError_one_error:
  "diagnoseInitError EP Inst d = Inr EP' \<Longrightarrow> d \<in> ds \<Longrightarrow>
     one_error ds EP EP' \<and> TheMemory EP' = TheMemory EP"
  by (auto simp: diagnoseInitError_def one_error_def split: option.splits)

lemma one_error_after_check:
  "checkDefinitelyInit EP Inst = Inr (EP1, DI) \<Longrightarrow> one_error ds EP1 EP' \<Longrightarrow> one_error ds EP EP'"
  using checkDefinitelyInit_keeps [of EP Inst EP1 DI] by (simp add: one_error_def)

lemma no_error_after_check:
  "checkDefinitelyInit EP Inst = Inr (EP1, DI) \<Longrightarrow> no_error EP EP1 \<and> TheMemory EP1 = TheMemory EP"
  using checkDefinitelyInit_keeps [of EP Inst EP1 DI] by (simp add: no_error_def)

lemma checkDefinitelyInit_not_Partial:
  "checkDefinitelyInit EP I \<noteq> Inr (EP', DI_Partial)"
  by (auto simp: checkDefinitelyInit_def Let_def split: option.splits prod.splits)

lemma handleStoreUse_errors:
  assumes h: "handleStoreUse TL EP Inst ps = Inr EP'"
  shows "(no_error EP EP' \<or> one_error (if ps then {struct_not_fully_initialized} else {}) EP EP')
         \<and> TheMemory EP' = TheMemory EP"
proof -
  from h obtain BB p where f: "find_inst (Fn EP) Inst = Some (BB, p)"
    by (auto simp: handleStoreUse_def split: option.splits)
  let ?I = "block_insts (Fn EP) BB ! p"
  show ?thesis
  proof (cases "\<not> ps \<and> \<not> store_needs_check (inst ?I)")
    case True
    then show ?thesis using h f by (auto simp: handleStoreUse_def Let_def no_error_def)
  next
    case False
    then obtain EP1 DI where c: "checkDefinitelyInit EP Inst = Inr (EP1, DI)"
      using h f by (auto simp: handleStoreUse_def Let_def split: sum.splits)
    note k = no_error_after_check [OF c]
    have np: "DI \<noteq> DI_Partial" using c checkDefinitelyInit_not_Partial by blast
    show ?thesis
    proof (cases "ps \<and> DI \<noteq> DI_Yes")
      case True
      then have "diagnoseInitError EP1 Inst struct_not_fully_initialized = Inr EP'"
        using h f False c by (simp add: handleStoreUse_def Let_def)
      from diagnoseInitError_one_error [OF this, of "{struct_not_fully_initialized}"]
        one_error_after_check [OF c] True k
      show ?thesis by simp
    next
      case nd: False
      have r: "(case inst ?I of
                  CopyAddr s d t i \<Rightarrow>
                    Inr (EP1\<lparr>Fn := update_at (Fn EP1) BB p (setIsInitializationOfDest (DI = DI_No))\<rparr>)
                | StoreWeak v a i \<Rightarrow>
                    Inr (EP1\<lparr>Fn := update_at (Fn EP1) BB p (setIsInitializationOfDest (DI = DI_No))\<rparr>)
                | Assign v a \<Rightarrow>
                    (case LowerAssignInstruction TL (Fn EP1) Inst (DI = DI_No) of
                       Inl e \<Rightarrow> Inl e
                     | Inr (F', Inserted) \<Rightarrow>
                         (let (NLU, U) = track_inserted Inserted (NonLoadUses EP1 - {Inst}, Uses EP1)
                          in Inr (EP1\<lparr>Fn := F', NonLoadUses := NLU, Uses := U\<rparr>)))
                | _ \<Rightarrow> Inr EP1) = Inr EP'"
        using h f False c nd np by (simp add: handleStoreUse_def Let_def)
      have "no_error EP1 EP' \<and> TheMemory EP' = TheMemory EP1"
      proof (cases "inst ?I")
        case (Assign v a)
        then show ?thesis
          using r by (auto simp: no_error_def split: sum.splits prod.splits)
      qed (use r in \<open>auto simp: no_error_def\<close>)
      then show ?thesis using k by (simp add: no_error_def)
    qed
  qed
qed

lemma handle_use_errors:
  assumes h: "handle_use TL EP Inst k = Inr EP'"
  shows "(no_error EP EP' \<or> one_error (errors_of k) EP EP') \<and> TheMemory EP' = TheMemory EP"
proof (cases k)
  case Load_Use
  then show ?thesis
    using h no_error_after_check one_error_after_check
      diagnoseInitError_one_error [of _ Inst variable_used_before_initialized EP' "errors_of k"]
    by (fastforce simp: handleLoadUse_def split: sum.splits if_splits)
next
  case Store_Use
  then show ?thesis using handleStoreUse_errors [of TL EP Inst False EP'] h by simp
next
  case PartialStore_Use
  then show ?thesis using handleStoreUse_errors [of TL EP Inst True EP'] h by simp
next
  case InOutUse
  then show ?thesis
    using h no_error_after_check one_error_after_check
      diagnoseInitError_one_error [of _ Inst variable_inout_before_initialized EP' "errors_of k"]
    by (fastforce simp: handleInOutUse_def split: sum.splits if_splits)
next
  case Escape_Use
  then show ?thesis
    using h no_error_after_check one_error_after_check
      diagnoseInitError_one_error [of _ Inst global_variable_function_use_uninit EP' "errors_of k"]
      diagnoseInitError_one_error [of _ Inst variable_escape_before_initialized EP' "errors_of k"]
    by (fastforce simp: handleEscape_def split: sum.splits if_splits option.splits)
next
  case Release_Use
  then show ?thesis
    using h no_error_after_check one_error_after_check
      diagnoseInitError_one_error [of _ Inst variable_destroyed_before_initialized EP' "errors_of k"]
    by (fastforce simp: handleRelease_def split: sum.splits if_splits)
qed

lemma one_error_mono: "one_error ds EP EP' \<Longrightarrow> ds \<subseteq> ds' \<Longrightarrow> one_error ds' EP EP'"
  unfolding one_error_def by blast

lemma errors_of_reachable: "errors_of k \<subseteq> reachable_errors"
  by (cases k) (simp_all add: reachable_errors_def)

lemma doIt_phase1_errors:
  "doIt_phase1 TL EP i = Inr (EP', returned) \<Longrightarrow> \<not> HadError EP \<Longrightarrow>
     ((\<not> returned \<and> no_error EP EP') \<or> (returned \<and> one_error reachable_errors EP EP'))
     \<and> TheMemory EP' = TheMemory EP"
proof (induction TL EP i rule: doIt_phase1.induct)
  case (1 TL EP i)
  show ?case
  proof (cases "i < length (Uses EP)")
    case False
    then show ?thesis using "1.prems" by (simp add: doIt_phase1.simps no_error_def)
  next
    case True
    obtain io k where u: "Uses EP ! i = (io, k)" by (cases "Uses EP ! i")
    show ?thesis
    proof (cases io)
      case None
      then have "doIt_phase1 TL EP (Suc i) = Inr (EP', returned)"
        using "1.prems"(1) True u by (simp add: doIt_phase1.simps)
      from "1.IH"(1) [OF True u [symmetric] None this "1.prems"(2)] show ?thesis .
    next
      case (Some Inst)
      then obtain EP1 where h: "handle_use TL EP Inst k = Inr EP1"
        using "1.prems"(1) True u by (auto simp: doIt_phase1.simps split: sum.splits)
      note e = handle_use_errors [OF h]
      show ?thesis
      proof (cases "HadError EP1")
        case True
        then have r: "EP' = EP1" "returned"
          using "1.prems"(1) \<open>i < length (Uses EP)\<close> u Some h by (simp_all add: doIt_phase1.simps)
        have "one_error (errors_of k) EP EP1"
          using e True "1.prems"(2) by (auto simp: no_error_def)
        then show ?thesis
          using r e one_error_mono [OF _ errors_of_reachable] by blast
      next
        case False
        then have r: "doIt_phase1 TL EP1 (Suc i) = Inr (EP', returned)"
          using "1.prems"(1) True u Some h by (simp add: doIt_phase1.simps)
        have n: "no_error EP EP1" using e False by (auto simp: one_error_def)
        from "1.IH"(2) [OF True u [symmetric] Some h False r False]
        show ?thesis using n e by (auto simp: no_error_def one_error_def)
      qed
    qed
  qed
qed

lemma doIt_phase2_no_error:
  "doIt_phase2 EP i = Inr EP' \<Longrightarrow> no_error EP EP'"
proof (induction EP i rule: doIt_phase2.induct)
  case (1 EP i)
  show ?case
  proof (cases "i < length (Uses EP)")
    case False
    then show ?thesis using "1.prems" by (simp add: doIt_phase2.simps no_error_def)
  next
    case True
    obtain io k where u: "Uses EP ! i = (io, k)" by (cases "Uses EP ! i")
    show ?thesis
    proof (cases "\<exists>Inst. io = Some Inst \<and> k = Load_Use")
      case True
      then obtain Inst where i: "io = Some Inst" "k = Load_Use" by blast
      then obtain EP1 where p: "promoteLoad EP Inst = Inr EP1"
        and r: "doIt_phase2 EP1 (Suc i) = Inr EP'"
        using "1.prems" \<open>i < length (Uses EP)\<close> u
        by (auto simp: doIt_phase2.simps split: sum.splits)
      have "no_error EP1 EP'"
        using "1.IH" \<open>i < length (Uses EP)\<close> u [symmetric] i p r by blast
      with promoteLoad_keeps [OF p] show ?thesis by (simp add: no_error_def)
    next
      case False
      then have r: "doIt_phase2 EP (Suc i) = Inr EP'"
        using "1.prems" True u
        by (auto simp: doIt_phase2.simps split: option.splits UseKind.splits)
      show ?thesis
      proof (cases io)
        case None
        then show ?thesis using "1.IH" True u [symmetric] r by blast
      next
        case (Some Inst)
        then have "k \<noteq> Load_Use" using False by simp
        then show ?thesis
          using "1.IH" True u [symmetric] Some r by (cases k) blast+
      qed
    qed
  qed
qed

lemma ex_early_find:
  "find_inst ex_early 10 = Some (0, 0)"
  "find_inst ex_early 11 = Some (0, 1)"
  "find_inst ex_early 12 = Some (0, 2)"
  by (simp_all add: find_inst_def ex_early_def)

lemma ex_early_block:
  "block_insts ex_early 0 =
     [\<lparr>inst_id = 10, inst = AllocBox, inst_ty = ex_Int,
                 loc = \<lparr>source_loc = 40, decl_name = Some ''x''\<rparr>\<rparr>,
                \<lparr>inst_id = 11, inst = Load (SILValue 10 1 ex_Int), inst_ty = ex_Int,
                 loc = ex_loc 41\<rparr>,
                \<lparr>inst_id = 12, inst = Store (SILValue 100 0 ex_Int) (SILValue 10 1 ex_Int),
                 inst_ty = no_result_ty, loc = ex_loc 42\<rparr>]"
  by (simp add: block_insts_def ex_early_def)

lemma ex_early_get:
  "get_inst ex_early 10 = Some \<lparr>inst_id = 10, inst = AllocBox, inst_ty = ex_Int,
                 loc = \<lparr>source_loc = 40, decl_name = Some ''x''\<rparr>\<rparr>"
  "get_inst ex_early 11 = Some \<lparr>inst_id = 11, inst = Load (SILValue 10 1 ex_Int), inst_ty = ex_Int,
                 loc = ex_loc 41\<rparr>"
  by (simp_all add: get_inst_def ex_early_find ex_early_block)

lemma ex_early_check: "checkDefinitelyInit ex_early_EP 11 = Inr (ex_early_EP, DI_No)"
proof -
  have f: "find_inst (Fn ex_early_EP) 11 = Some (0, 1)"
    and b: "block_insts (Fn ex_early_EP) 0 = block_insts ex_early 0"
    and h: "HasNonLoadUse (PerBlockInfo ex_early_EP 0)"
    and n: "NonLoadUses ex_early_EP = {10, 12}" and m: "TheMemory ex_early_EP = 10"
    by (simp_all add: ex_early_EP_def ex_early_find)
  show ?thesis
    unfolding checkDefinitelyInit_def f by (simp add: h b ex_early_block n m)
qed

lemma ex_early_diagnose:
  "diagnoseInitError ex_early_EP 11 variable_used_before_initialized = Inr ex_early_diagnosed"
proof -
  have f: "Fn ex_early_EP = ex_early" "TheMemory ex_early_EP = 10" "ElementNumber ex_early_EP = 0"
    by (simp_all add: ex_early_EP_def)
  have p: "getPathStringToElement ex_Int 0 ''x'' = Some ''x''" by (simp add: ex_Int_def)
  show ?thesis
    unfolding diagnoseInitError_def f ex_early_get
    by (simp add: p ex_early_diagnosed_def ex_loc_def ex_early_EP_def)
qed

lemma ex_early_phase1: "doIt_phase1 ex_TL ex_early_EP 0 = Inr (ex_early_diagnosed, True)"
proof -
  have u: "Uses ex_early_EP = [(Some 11, Load_Use), (Some 12, Store_Use)]"
    by (simp add: ex_early_EP_def)
  have h: "handleLoadUse ex_early_EP 11 = Inr ex_early_diagnosed"
    by (simp add: handleLoadUse_def ex_early_check ex_early_diagnose)
  have e: "HadError ex_early_diagnosed" by (simp add: ex_early_diagnosed_def)
  show ?thesis
    by (subst doIt_phase1.simps) (simp add: u h e)
qed

lemma ex_early_doIt: "doIt ex_TL ex_early_EP = Inr ex_early_diagnosed"
  by (simp add: doIt_def ex_early_phase1)

lemma doIt_errors:
  assumes d: "doIt TL EP = Inr EP'" and n: "\<not> HadError EP"
  shows "no_error EP EP'
       \<or> (doIt_phase1 TL EP 0 = Inr (EP', True) \<and> one_error reachable_errors EP EP')"
proof -
  from d obtain EP1 returned where p: "doIt_phase1 TL EP 0 = Inr (EP1, returned)"
    by (auto simp: doIt_def split: sum.splits)
  note e = doIt_phase1_errors [OF p n]
  show ?thesis
  proof (cases returned)
    case True
    then have "EP' = EP1" using d p by (simp add: doIt_def)
    then show ?thesis using True e p by simp
  next
    case False
    then have "doIt_phase2 EP1 0 = Inr EP'" using d p by (simp add: doIt_def)
    from doIt_phase2_no_error [OF this] e False show ?thesis by (simp add: no_error_def)
  qed
qed

text \<open>
  Claim C6. A run of \<open>doIt\<close> on a freshly constructed state (no error yet) that comes
  to its end either diagnoses nothing, or it diagnoses exactly one error, followed by the
  note \<open>variable_defined_here\<close> at the location of the allocation; in that case \<open>doIt\<close>
  has returned from inside the first loop, at the use that was diagnosed, and its result
  is the state of that moment: no later use is handled and no load is promoted.
\<close>

theorem doIt_one_error_per_element:
  assumes "doIt TL EP = Inr EP'" and "\<not> HadError EP"
  shows "(\<not> HadError EP' \<and> Diags EP' = Diags EP)
       \<or> (HadError EP' \<and> doIt_phase1 TL EP 0 = Inr (EP', True)
          \<and> (\<exists>M l d Name. get_inst (Fn EP') (TheMemory EP') = Some M
                \<and> d \<in> reachable_errors
                \<and> Diags EP' = Diags EP @
                     [Diagnostic l d (Some Name),
                      Diagnostic (source_loc (loc M)) variable_defined_here None]))"
  using doIt_errors [OF assms] assms(2) by (auto simp: no_error_def one_error_def)

theorem doIt_one_error_per_element_witness:
  "doIt ex_TL ex_early_EP = Inr ex_early_diagnosed \<and> \<not> HadError ex_early_EP
   \<and> HadError ex_early_diagnosed
   \<and> doIt_phase1 ex_TL ex_early_EP 0 = Inr (ex_early_diagnosed, True)
   \<and> (\<exists>M l d Name. get_inst (Fn ex_early_diagnosed) (TheMemory ex_early_diagnosed) = Some M
         \<and> d \<in> reachable_errors
         \<and> Diags ex_early_diagnosed = Diags ex_early_EP @
              [Diagnostic l d (Some Name),
               Diagnostic (source_loc (loc M)) variable_defined_here None])
   \<and> Diags ex_early_diagnosed =
       [Diagnostic 41 variable_used_before_initialized (Some ''x''),
        Diagnostic 40 variable_defined_here None]"
proof -
  have n: "\<not> HadError ex_early_EP" by (simp add: ex_early_EP_def)
  have e: "HadError ex_early_diagnosed"
    and d: "Diags ex_early_diagnosed =
       [Diagnostic 41 variable_used_before_initialized (Some ''x''),
        Diagnostic 40 variable_defined_here None]"
    by (simp_all add: ex_early_diagnosed_def)
  from doIt_one_error_per_element [OF ex_early_doIt n] e
  have "doIt_phase1 ex_TL ex_early_EP 0 = Inr (ex_early_diagnosed, True)
     \<and> (\<exists>M l d Name. get_inst (Fn ex_early_diagnosed) (TheMemory ex_early_diagnosed) = Some M
         \<and> d \<in> reachable_errors
         \<and> Diags ex_early_diagnosed = Diags ex_early_EP @
              [Diagnostic l d (Some Name),
               Diagnostic (source_loc (loc M)) variable_defined_here None])"
    by blast
  with ex_early_doIt n e d show ?thesis by blast
qed

subsection \<open>The diagnostics of a run of the pass\<close>

lemma doIt_on_some_paths:
  assumes "doIt TL EP = Inr EP'" and "\<not> HadError EP"
  shows "on_some_paths_diags (Diags EP') = on_some_paths_diags (Diags EP)"
  using doIt_errors [OF assms]
  by (auto simp: no_error_def one_error_def on_some_paths_diags_def reachable_errors_def)

lemma new_ElementPromotion_fresh:
  "new_ElementPromotion F D Memory EltNo U = Inr EP \<Longrightarrow> \<not> HadError EP \<and> Diags EP = D"
  by (auto simp: new_ElementPromotion_def Let_def split: option.splits sum.splits prod.splits)

lemma promote_elements_on_some_paths:
  "promote_elements TL st Memory EltNo U = Inr st' \<Longrightarrow>
   on_some_paths_diags (snd st') = on_some_paths_diags (snd st)"
proof (induction U arbitrary: st EltNo)
  case Nil
  then show ?case by simp
next
  case (Cons Elt Elts)
  from Cons.prems obtain EP EP' where
    n: "new_ElementPromotion (fst st) (snd st) Memory EltNo Elt = Inr EP"
    and d: "doIt TL EP = Inr EP'"
    and r: "promote_elements TL (Fn EP', Diags EP') Memory (Suc EltNo) Elts = Inr st'"
    by (auto split: sum.splits)
  from new_ElementPromotion_fresh [OF n] doIt_on_some_paths [OF d]
  have "on_some_paths_diags (Diags EP') = on_some_paths_diags (snd st)" by simp
  with Cons.IH [OF r] show ?case by simp
qed

lemma process_memory_on_some_paths:
  "process_memory fuel TL st Memory addr releases = Some (Inr st') \<Longrightarrow>
   on_some_paths_diags (snd st') = on_some_paths_diags (snd st)"
proof -
  assume a: "process_memory fuel TL st Memory addr releases = Some (Inr st')"
  then have "\<exists>F1 U. promote_elements TL (F1, snd st) Memory 0 U = Inr st'"
    by (auto simp: process_memory_def split: option.splits sum.splits)
  then obtain F1 U where "promote_elements TL (F1, snd st) Memory 0 U = Inr st'"
    by blast
  from promote_elements_on_some_paths [OF this] show ?thesis by simp
qed

lemma check_block_on_some_paths:
  "check_block steps fuel TL st BB p = Some (Inr st') \<Longrightarrow>
   on_some_paths_diags (snd st') = on_some_paths_diags (snd st)"
proof (induction steps arbitrary: st p)
  case 0
  then show ?case by simp
next
  case (Suc steps)
  show ?case
  proof (cases "length (block_insts (fst st) BB) \<le> p")
    case True
    then show ?thesis using Suc.prems by simp
  next
    case False
    let ?I = "block_insts (fst st) BB ! p"
    consider (box) "inst ?I = AllocBox" | (stack) "inst ?I = AllocStack"
      | (mui) Operand where "inst ?I = MarkUninitialized Operand"
      | (other) "\<not> is_memory (inst ?I)"
      by (cases "inst ?I") simp_all
    then show ?thesis
    proof cases
      case box
      with Suc.prems False obtain st1 p' where
        a: "processAllocBox fuel TL st (inst_id ?I) = Some (Inr st1)"
        and b: "check_block steps fuel TL (erase_at (fst st1) BB p', snd st1) BB p'
                  = Some (Inr st')
              \<or> check_block steps fuel TL st1 BB (Suc p') = Some (Inr st')"
        by (auto simp: Let_def split: option.splits sum.splits if_splits)
      have "on_some_paths_diags (snd st1) = on_some_paths_diags (snd st)"
        using a process_memory_on_some_paths by (simp add: processAllocBox_def)
      moreover have "on_some_paths_diags (snd st') = on_some_paths_diags (snd st1)"
        using b Suc.IH by fastforce
      ultimately show ?thesis by simp
    next
      case stack
      with Suc.prems False obtain st1 p' where
        a: "processAllocStack fuel TL st (inst_id ?I) = Some (Inr st1)"
        and b: "check_block steps fuel TL st1 BB (Suc p') = Some (Inr st')"
        by (auto simp: Let_def split: option.splits sum.splits if_splits)
      have "on_some_paths_diags (snd st1) = on_some_paths_diags (snd st)"
        using a process_memory_on_some_paths by (simp add: processAllocStack_def)
      with Suc.IH [OF b] show ?thesis by simp
    next
      case mui
      with Suc.prems False obtain st1 p' where
        a: "processMarkUninitialized fuel TL st (inst_id ?I) = Some (Inr st1)"
        and b: "check_block steps fuel TL st1 BB (Suc p') = Some (Inr st')"
        by (auto simp: Let_def split: option.splits sum.splits if_splits)
      have "on_some_paths_diags (snd st1) = on_some_paths_diags (snd st)"
        using a process_memory_on_some_paths by (simp add: processMarkUninitialized_def)
      with Suc.IH [OF b] show ?thesis by simp
    next
      case other
      then have "check_block (Suc steps) fuel TL st BB p = check_block steps fuel TL st BB (Suc p)"
        using False by (cases "inst ?I") (simp_all add: Let_def)
      with Suc.IH Suc.prems show ?thesis by simp
    qed
  qed
qed

lemma check_blocks_on_some_paths:
  "check_blocks fuel TL st BBs = Some (Inr st') \<Longrightarrow>
   on_some_paths_diags (snd st') = on_some_paths_diags (snd st)"
proof (induction BBs arbitrary: st)
  case Nil
  then show ?case by simp
next
  case (Cons BB BBs)
  from Cons.prems obtain st1 where
    c: "check_block fuel fuel TL st BB 0 = Some (Inr st1)"
    and r: "check_blocks fuel TL st1 BBs = Some (Inr st')"
    by (auto split: option.splits sum.splits)
  from check_block_on_some_paths [OF c] Cons.IH [OF r] show ?case by simp
qed

lemma performSILDefiniteInitialization_on_some_paths:
  "performSILDefiniteInitialization fuel TL M D = Some (Inr (M', D')) \<Longrightarrow>
   on_some_paths_diags D' = on_some_paths_diags D"
proof (induction M arbitrary: D M')
  case Nil
  then show ?case by simp
next
  case (Cons F M)
  from Cons.prems obtain F1 D1 M2 where
    c: "checkDefiniteInitialization fuel TL (F, D) = Some (Inr (F1, D1))"
    and p: "performSILDefiniteInitialization fuel TL M D1 = Some (Inr (M2, D'))"
    by (auto split: option.splits sum.splits prod.splits)
  have "on_some_paths_diags D1 = on_some_paths_diags D"
    using check_blocks_on_some_paths c by (fastforce simp: checkDefiniteInitialization_def)
  with Cons.IH [OF p] show ?case by simp
qed

text \<open>
  Claim C7. The check never answers \<open>DI_Partial\<close>. So \<open>handleStoreUse\<close> either diagnoses
  nothing or diagnoses \<open>struct_not_fully_initialized\<close>, a run of \<open>doIt\<close> adds no
  diagnostic \<open>variable_initialized_on_some_paths\<close> to those that were there before, and
  neither does a run of the pass over a module.
\<close>

theorem initialized_on_some_paths_never_diagnosed:
  "checkDefinitelyInit EP I \<noteq> Inr (EP1, DI_Partial)
   \<and> (handleStoreUse TL EP I ps = Inr EP2 \<longrightarrow>
        no_error EP EP2 \<or> one_error {struct_not_fully_initialized} EP EP2)
   \<and> (doIt TL EP = Inr EP3 \<and> \<not> HadError EP \<longrightarrow>
        (\<forall>l a. Diagnostic l variable_initialized_on_some_paths a \<in> set (Diags EP3) \<longrightarrow>
               Diagnostic l variable_initialized_on_some_paths a \<in> set (Diags EP)))
   \<and> (performSILDefiniteInitialization fuel TL M D = Some (Inr (M', D')) \<longrightarrow>
        on_some_paths_diags D' = on_some_paths_diags D)"
proof (intro conjI impI allI)
  show "checkDefinitelyInit EP I \<noteq> Inr (EP1, DI_Partial)"
    by (rule checkDefinitelyInit_not_Partial)
next
  assume "handleStoreUse TL EP I ps = Inr EP2"
  from handleStoreUse_errors [OF this]
  show "no_error EP EP2 \<or> one_error {struct_not_fully_initialized} EP EP2"
    by (cases ps) (auto simp: one_error_def)
next
  fix l a
  assume "doIt TL EP = Inr EP3 \<and> \<not> HadError EP"
    and "Diagnostic l variable_initialized_on_some_paths a \<in> set (Diags EP3)"
  then show "Diagnostic l variable_initialized_on_some_paths a \<in> set (Diags EP)"
    using doIt_errors [of TL EP EP3]
    by (auto simp: no_error_def one_error_def reachable_errors_def)
next
  assume "performSILDefiniteInitialization fuel TL M D = Some (Inr (M', D'))"
  then show "on_some_paths_diags D' = on_some_paths_diags D"
    by (rule performSILDefiniteInitialization_on_some_paths)
qed

lemma ex_assign_find:
  "find_inst ex_assign 10 = Some (0, 0)" "find_inst ex_assign 11 = Some (0, 1)"
  by (simp_all add: find_inst_def ex_assign_def)

theorem initialized_on_some_paths_never_diagnosed_witness:
  "(\<exists>EP2. handleStoreUse ex_TL ex_assign_EP 11 False = Inr EP2 \<and> no_error ex_assign_EP EP2)
   \<and> doIt ex_TL ex_early_EP = Inr ex_early_diagnosed \<and> \<not> HadError ex_early_EP
   \<and> (\<forall>l a. Diagnostic l variable_initialized_on_some_paths a \<notin> set (Diags ex_early_diagnosed))
   \<and> performSILDefiniteInitialization 10 ex_TL [ex_early] []
       = Some (Inr ([ex_early], Diags ex_early_diagnosed))
   \<and> on_some_paths_diags (Diags ex_early_diagnosed) = []"
proof -
  note t = initialized_on_some_paths_never_diagnosed
  have f: "find_inst (Fn ex_assign_EP) 11 = Some (0, 1)"
    by (simp add: ex_assign_EP_def ex_assign_find)
  have i: "inst (block_insts (Fn ex_assign_EP) 0 ! 1)
      = Assign (SILValue 100 0 ex_Class) (SILValue 10 1 ex_Class)"
    and i': "inst (block_insts (Fn ex_assign_EP) 0 ! Suc 0)
      = Assign (SILValue 100 0 ex_Class) (SILValue 10 1 ex_Class)"
    by (simp_all add: ex_assign_EP_def block_insts_def ex_assign_def)
  have c: "checkDefinitelyInit ex_assign_EP 11 = Inr (ex_assign_EP, DI_No)"
    unfolding checkDefinitelyInit_def f
    by (simp add: ex_assign_EP_def block_insts_def ex_assign_def)
  from LowerAssignInstruction_result [OF f i, of ex_TL True]
  obtain F' new where "LowerAssignInstruction ex_TL (Fn ex_assign_EP) 11 True = Inr (F', new)"
    by blast
  then have "\<exists>EP2. handleStoreUse ex_TL ex_assign_EP 11 False = Inr EP2"
    unfolding handleStoreUse_def f
    by (simp add: Let_def i' c split_beta)
  then obtain EP2 where h: "handleStoreUse ex_TL ex_assign_EP 11 False = Inr EP2" by blast
  have "no_error ex_assign_EP EP2 \<or> one_error {struct_not_fully_initialized} ex_assign_EP EP2"
    using t [of ex_assign_EP 11 _ ex_TL False EP2] h by blast
  moreover have "HadError EP2 = HadError ex_assign_EP"
    using handleStoreUse_errors [OF h] by (auto simp: no_error_def one_error_def)
  ultimately have ne: "no_error ex_assign_EP EP2"
    by (auto simp: one_error_def ex_assign_EP_def)
  have n: "\<not> HadError ex_early_EP" by (simp add: ex_early_EP_def)
  have "\<forall>l a. Diagnostic l variable_initialized_on_some_paths a \<in> set (Diags ex_early_diagnosed) \<longrightarrow>
               Diagnostic l variable_initialized_on_some_paths a \<in> set (Diags ex_early_EP)"
    using t [of ex_early_EP 11 _ ex_TL False _ ex_early_diagnosed] ex_early_doIt n by blast
  then have "\<forall>l a. Diagnostic l variable_initialized_on_some_paths a \<notin> set (Diags ex_early_diagnosed)"
    by (auto simp: ex_early_EP_def)
  moreover have r: "performSILDefiniteInitialization 10 ex_TL [ex_early] []
       = Some (Inr ([ex_early], Diags ex_early_diagnosed))"
    by code_simp
  moreover have "on_some_paths_diags (Diags ex_early_diagnosed) = []"
    using t [of ex_early_EP 11 _ ex_TL False _ _ 10 "[ex_early]" "[]" "[ex_early]"
               "Diags ex_early_diagnosed"] r
    by (simp add: on_some_paths_diags_def)
  ultimately show ?thesis using h ne ex_early_doIt n by blast
qed

section \<open>The pass leaves no raw instruction\<close>








subsection \<open>A function without memory to check\<close>





subsection \<open>Two runs of the pass\<close>




section \<open>An allocation of the empty tuple\<close>

lemma push_use_length: "push_use C Elt User Kind = Inr C' \<Longrightarrow> length (CUses C') = length (CUses C)"
  by (auto simp: push_use_def split: if_splits)

lemma push_uses_length:
  "push_uses C Elts User Kind = Inr C' \<Longrightarrow> length (CUses C') = length (CUses C)"
proof (induction Elts arbitrary: C)
  case Nil
  then show ?case by simp
next
  case (Cons Elt Elts)
  then show ?case using push_use_length by (fastforce split: sum.splits)
qed

lemma record_use_length:
  "record_use S E st BaseElt PointeeType User act = Inr st' \<Longrightarrow>
   length (CUses (fst st')) = length (CUses (fst st))"
  unfolding record_use_def addElementUses_def
  using push_use_length push_uses_length
  by (cases act) (fastforce split: sum.splits)+

lemma collectUses_length:
  "(\<forall>C'. collectUses fuel S E C Pointer BaseElt = Some (Inr C') \<longrightarrow>
      length (CUses C') = length (CUses C))"
  "(\<forall>st'. collect_uses_loop fuel S E st Pointer BaseElt us = Some (Inr st') \<longrightarrow>
      length (CUses (fst st')) = length (CUses (fst st)))"
  "(\<forall>C'. collect_element_addrs fuel S E C ElementAddrs BaseElt = Some (Inr C') \<longrightarrow>
      length (CUses C') = length (CUses C))"
proof (induction fuel S E C Pointer BaseElt and fuel S E st Pointer BaseElt us
        and fuel S E C ElementAddrs BaseElt
        rule: collectUses_collect_uses_loop_collect_element_addrs.induct)
  case (1 S E C Pointer BaseElt)
  then show ?case by (simp add: collectUses.simps)
next
  case (2 fuel S E C Pointer BaseElt)
  show ?case
  proof (intro allI impI)
    fix C'
    assume a: "collectUses (Suc fuel) S E C Pointer BaseElt = Some (Inr C')"
    then obtain C1 U where
      l: "collect_uses_loop fuel S E (C, []) Pointer BaseElt (getUses (CFn C) Pointer)
            = Some (Inr (C1, U))"
      by (auto simp: collectUses.simps split: option.splits sum.splits)
    from "2.IH"(1) l have l1: "length (CUses C1) = length (CUses C)" by auto
    show "length (CUses C') = length (CUses C)"
    proof (cases "U = []")
      case True
      then show ?thesis using a l l1 by (simp add: collectUses.simps)
    next
      case False
      with a l obtain F2 ElementAddrs where
        s: "scalarize_all (CFn C1) Pointer U = Inr (F2, ElementAddrs)"
        and r: "collect_element_addrs fuel S E (C1\<lparr>CFn := F2\<rparr>) ElementAddrs BaseElt
                  = Some (Inr C')"
        by (auto simp: collectUses.simps split: sum.splits)
      from "2.IH"(2) [OF l refl refl False s refl] r
      have "length (CUses C') = length (CUses (C1\<lparr>CFn := F2\<rparr>))" by blast
      then show ?thesis using l1 by simp
    qed
  qed
next
  case (3 fuel S E st Pointer BaseElt)
  then show ?case by (simp add: collect_uses_loop.simps)
next
  case (4 fuel S E st Pointer BaseElt User opno rest)
  show ?case
  proof (intro allI impI)
    fix st'
    assume a: "collect_uses_loop fuel S E st Pointer BaseElt ((User, opno) # rest) = Some (Inr st')"
    then obtain I act st1 tgt where
      g: "get_inst (CFn (fst st)) User = Some I"
      and c: "classify_use S E (vty Pointer) (inst I) opno = Inr act"
      and r: "record_use S E st BaseElt (vty Pointer) User act = Inr st1"
      and t: "recursive_target S E (CFn (fst st1)) I BaseElt act = Inr tgt"
      by (auto simp: collect_uses_loop.simps split: option.splits sum.splits)
    have l1: "length (CUses (fst st1)) = length (CUses (fst st))"
      using record_use_length [OF r] .
    show "length (CUses (fst st')) = length (CUses (fst st))"
    proof (cases tgt)
      case None
      then have "collect_uses_loop fuel S E st1 Pointer BaseElt rest = Some (Inr st')"
        using a g c r t by (simp add: collect_uses_loop.simps)
      with "4.IH"(1) [OF g c r t None] l1 show ?thesis by simp
    next
      case (Some x)
      then obtain S' E' Pointer' Base' where x: "x = (S', E', Pointer', Base')"
        by (cases x) auto
      with a g c r t Some obtain C2 where
        u: "collectUses fuel S' E' (fst st1) Pointer' Base' = Some (Inr C2)"
        and v: "collect_uses_loop fuel S E (C2, snd st1) Pointer BaseElt rest = Some (Inr st')"
        by (auto simp: collect_uses_loop.simps split: option.splits sum.splits)
      have l2: "length (CUses C2) = length (CUses (fst st1))"
        using "4.IH"(2) [OF g c r t Some x [symmetric] refl refl] u by blast
      have "length (CUses (fst st')) = length (CUses (fst (C2, snd st1)))"
        using "4.IH"(3) [OF g c r t Some x [symmetric] refl refl u refl] v by blast
      then show ?thesis using l1 l2 by simp
    qed
  qed
next
  case (5 fuel S E C BaseElt)
  then show ?case by (simp add: collect_element_addrs.simps)
next
  case (6 fuel S E C EltPtr ElementAddrs BaseElt)
  show ?case
  proof (intro allI impI)
    fix C'
    assume a: "collect_element_addrs fuel S E C (EltPtr # ElementAddrs) BaseElt = Some (Inr C')"
    then obtain S' Pointer' Base' C2 where
      t: "element_target S (CFn C) (inst_id EltPtr) BaseElt = Inr (S', Pointer', Base')"
      and u: "collectUses fuel S' E C Pointer' Base' = Some (Inr C2)"
      and v: "collect_element_addrs fuel S E C2 ElementAddrs BaseElt = Some (Inr C')"
      by (auto simp: collect_element_addrs.simps split: option.splits sum.splits)
    have "length (CUses C2) = length (CUses C)"
      using "6.IH"(1) [OF t refl refl] u by blast
    moreover have "length (CUses C') = length (CUses C2)"
      using "6.IH"(2) [OF t refl refl u refl] v by blast
    ultimately show "length (CUses C') = length (CUses C)" by simp
  qed
qed

lemma collect_releases_Nil: "collect_releases is_release F us [] = []"
  by (induction us) auto

lemma process_memory_empty_tuple:
  assumes g: "get_inst F Memory = Some I" and t: "inst_ty I = TupleTy []"
  shows "process_memory fuel TL (F, D) Memory addr releases =
     (case collectUses fuel False False \<lparr>CFn = F, CUses = []\<rparr>
             (SILValue Memory addr (TupleTy [])) 0 of
        None \<Rightarrow> None
      | Some (Inl e) \<Rightarrow> Some (Inl e)
      | Some (Inr C) \<Rightarrow> Some (Inr (CFn C, D)))"
proof (cases "collectUses fuel False False \<lparr>CFn = F, CUses = []\<rparr>
                (SILValue Memory addr (TupleTy [])) 0")
  case None
  then show ?thesis using g t by (simp add: process_memory_def)
next
  case (Some r)
  show ?thesis
  proof (cases r)
    case (Inl e)
    then show ?thesis using Some g t by (simp add: process_memory_def)
  next
    case (Inr C)
    have "length (CUses C) = length (CUses \<lparr>CFn = F, CUses = []\<rparr>)"
      using collectUses_length(1) Some Inr by blast
    then have "CUses C = []" by simp
    then show ?thesis
      using Some Inr g t
      by (cases releases) (simp_all add: process_memory_def collect_releases_Nil)
  qed
qed

lemma addElementUses_empty_tuple:
  "addElementUses False False C BaseElt (TupleTy []) User Kind = Inr C"
  by (simp add: addElementUses_def)

lemma collect_uses_loop_whole_value:
  "list_all (whole_value_use (CFn C) (TupleTy [])) us \<Longrightarrow> vty Pointer = TupleTy [] \<Longrightarrow>
   collect_uses_loop fuel False False (C, acc) Pointer BaseElt us = Some (Inr (C, acc))"
proof (induction us)
  case Nil
  then show ?case by (simp add: collect_uses_loop.simps)
next
  case (Cons u us)
  obtain User opno where u: "u = (User, opno)" by (cases u)
  from Cons.prems(1) u obtain I Kind where
    g: "get_inst (CFn C) User = Some I"
    and c: "classify_use False False (TupleTy []) (inst I) opno = Inr (Record_Element_Uses Kind)"
    by (auto simp: whole_value_use_def split: option.splits sum.splits use_action.splits)
  have r: "record_use False False (C, acc) BaseElt (TupleTy []) User (Record_Element_Uses Kind)
      = Inr (C, acc)"
    by (simp add: record_use_def addElementUses_empty_tuple)
  have t: "recursive_target False False (CFn C) I BaseElt (Record_Element_Uses Kind) = Inr None"
    by (simp add: recursive_target_def)
  show ?case
    unfolding u
    using Cons.IH Cons.prems g c r t
    by (simp add: collect_uses_loop.simps)
qed

lemma collectUses_whole_value:
  assumes "0 < fuel"
    and "list_all (whole_value_use (CFn C) (TupleTy [])) (getUses (CFn C) Pointer)"
    and "vty Pointer = TupleTy []"
  shows "collectUses fuel False False C Pointer BaseElt = Some (Inr C)"
proof -
  from assms(1) obtain n where n: "fuel = Suc n" by (cases fuel) auto
  show ?thesis
    unfolding n
    using collect_uses_loop_whole_value [OF assms(2,3), of n "[]" BaseElt]
    by (simp add: collectUses.simps)
qed

lemma find_inst_from_inst_pos:
  "find_inst_from Bs b i = Some (BB, p) \<Longrightarrow>
     b \<le> BB \<and> BB - b < length Bs \<and> inst_pos (insts (Bs ! (BB - b))) i = Some p"
proof (induction Bs arbitrary: b)
  case Nil
  then show ?case by simp
next
  case (Cons B Bs)
  show ?case
  proof (cases "inst_pos (insts B) i")
    case (Some q)
    then show ?thesis using Cons.prems by simp
  next
    case None
    then have f: "find_inst_from Bs (Suc b) i = Some (BB, p)" using Cons.prems by simp
    from Cons.IH [OF f] have a: "Suc b \<le> BB" "BB - Suc b < length Bs"
      "inst_pos (insts (Bs ! (BB - Suc b))) i = Some p" by simp_all
    have "BB - b = Suc (BB - Suc b)" using a(1) by simp
    then have "(B # Bs) ! (BB - b) = Bs ! (BB - Suc b)" by simp
    with a show ?thesis by simp
  qed
qed

lemma find_inst_inst_pos:
  "find_inst F i = Some (BB, p) \<Longrightarrow> inst_pos (block_insts F BB) i = Some p"
  using find_inst_from_inst_pos [of "blocks F" 0 i BB p]
  by (simp add: find_inst_def block_insts_def)

lemma get_inst_find_inst:
  "find_inst F i = Some (BB, p) \<Longrightarrow> get_inst F i = Some (block_insts F BB ! p)"
  by (simp add: get_inst_def)

subsection \<open>Scalarizing without elements\<close>

lemma take_drop_map:
  "take n (map f xs) @ drop m (map f xs) = map f (take n xs @ drop m xs)"
  by (simp add: take_map drop_map)

lemma insert_then_erase_next:
  assumes "p < length xs"
  shows "take (Suc p) (take p xs @ [T] @ drop p xs)
           @ drop (Suc (Suc p)) (take p xs @ [T] @ drop p xs) = xs[p := T]"
proof -
  have l: "length (take p xs) = p" using assms by simp
  have a: "take (Suc p) (take p xs @ [T] @ drop p xs) = take p xs @ [T]"
    using l by (simp del: length_take)
  have "drop (Suc (Suc p)) (take p xs @ [T] @ drop p xs) = drop (Suc (Suc p) - p) ([T] @ drop p xs)"
    using l by (simp del: length_take)
  also have "Suc (Suc p) - p = Suc (Suc 0)" by simp
  also have "drop (Suc (Suc 0)) ([T] @ drop p xs) = drop (Suc p) xs" by simp
  finally have b: "drop (Suc (Suc p)) (take p xs @ [T] @ drop p xs) = drop (Suc p) xs" .
  show ?thesis unfolding a b using assms by (simp add: upd_conv_take_nth_drop)
qed


lemma getScalarizedElements_empty_tuple:
  assumes "vty v = TupleTy []"
  shows "\<exists>B1 tmps. getScalarizedElements B l v = Inr (B1, tmps)
     \<and> BFn B1 = BFn B \<and> InsertBB B1 = InsertBB B \<and> InsertPt B1 = InsertPt B"
proof (cases "get_inst (BFn B) (vdef v)")
  case None
  then show ?thesis using assms by (simp add: getScalarizedElements_def Let_def)
next
  case (Some z)
  then show ?thesis
    using assms by (cases "inst z") (simp_all add: getScalarizedElements_def Let_def)
qed

lemma scalarize_user_store:
  assumes f: "find_inst F User = Some (BB, p)"
    and i: "inst (block_insts F BB ! p) = Store v a \<or> inst (block_insts F BB ! p) = Assign v a"
    and t: "vty v = TupleTy []"
  shows "scalarize_user F [] User = Inr (erase_at F BB p)"
proof -
  let ?B = "\<lparr>BFn = F, InsertBB = BB, InsertPt = p, InsertedInsts = []\<rparr>"
  from getScalarizedElements_empty_tuple [OF t, of ?B "loc (block_insts F BB ! p)"]
  obtain B1 tmps where
    g: "getScalarizedElements ?B (loc (block_insts F BB ! p)) v = Inr (B1, tmps)"
    and b: "BFn B1 = F" "InsertBB B1 = BB" "InsertPt B1 = p"
    by auto
  from i show ?thesis
  proof
    assume "inst (block_insts F BB ! p) = Store v a"
    then show ?thesis using f g b by (simp add: scalarize_user_def Let_def)
  next
    assume "inst (block_insts F BB ! p) = Assign v a"
    then show ?thesis using f g b by (simp add: scalarize_user_def Let_def)
  qed
qed

lemma scalarize_user_load:
  assumes f: "find_inst F User = Some (BB, p)"
    and i: "inst (block_insts F BB ! p) = Load a"
  shows "\<exists>F'. scalarize_user F [] User = Inr F'
     \<and> block_insts F' BB =
         map (redirect_uses (SILValue User 0 (inst_ty (block_insts F BB ! p)))
                (SILValue (next_inst_id F) 0 (inst_ty (block_insts F BB ! p))))
           ((block_insts F BB)[p := empty_aggregate (next_inst_id F) (block_insts F BB ! p)])
     \<and> (\<forall>b. b \<noteq> BB \<longrightarrow> block_insts F' b =
         map (redirect_uses (SILValue User 0 (inst_ty (block_insts F BB ! p)))
                (SILValue (next_inst_id F) 0 (inst_ty (block_insts F BB ! p))))
           (block_insts F b))
     \<and> next_inst_id F' = Suc (next_inst_id F)
     \<and> length (blocks F') = length (blocks F)"
proof -
  let ?I = "block_insts F BB ! p"
  let ?T = "empty_aggregate (next_inst_id F) ?I"
  let ?B = "\<lparr>BFn = F, InsertBB = BB, InsertPt = p, InsertedInsts = []\<rparr>"
  let ?c = "createInst ?B (loc ?I) (if is_TupleTy (inst_ty ?I) then TupleInst [] else StructInst [])
              (inst_ty ?I)"
  let ?old = "SILValue User 0 (inst_ty ?I)"
  let ?new = "SILValue (next_inst_id F) 0 (inst_ty ?I)"
  have bb: "BB < length (blocks F)" and p: "p < length (block_insts F BB)"
    using find_inst_Some [OF f] by simp_all
  then have ple: "p \<le> length (block_insts F BB)" by simp
  have b1: "built F BB p [?T] (fst ?c)" and r: "snd ?c = next_inst_id F"
    using built_createInst [OF built_initial [of F BB p] bb ple,
        of "if is_TupleTy (inst_ty ?I) then TupleInst [] else StructInst []" "inst_ty ?I" "loc ?I"]
    by (simp_all add: empty_aggregate_def)
  let ?F1 = "replaceAllUsesWith (BFn (fst ?c)) ?old ?new"
  let ?F' = "erase_at ?F1 BB (Suc p)"
  have s: "scalarize_user F [] User = Inr ?F'"
    using f i r b1
    by (cases "is_TupleTy (inst_ty ?I)")
       (simp_all add: scalarize_user_def Let_def split_beta built_def)
  have l1: "length (blocks ?F1) = length (blocks F)"
    using b1 by (simp add: length_blocks_replaceAllUsesWith built_def)
  have bi: "\<And>b. block_insts ?F1 b = map (redirect_uses ?old ?new) (block_insts (BFn (fst ?c)) b)"
    by (simp add: block_insts_replaceAllUsesWith redirect_uses_def)
  have bb1: "block_insts (BFn (fst ?c)) BB
      = take p (block_insts F BB) @ [?T] @ drop p (block_insts F BB)"
    and ob: "\<forall>b. b \<noteq> BB \<longrightarrow> block_insts (BFn (fst ?c)) b = block_insts F b"
    and ni: "next_inst_id (BFn (fst ?c)) = Suc (next_inst_id F)"
    using b1 by (simp_all add: built_def)
  let ?X = "take p (block_insts F BB) @ [?T] @ drop p (block_insts F BB)"
  have "block_insts ?F' BB = take (Suc p) (block_insts ?F1 BB) @ drop (Suc (Suc p)) (block_insts ?F1 BB)"
    using bb l1 by (simp add: erase_at_def block_insts_update_block_insts)
  also have "block_insts ?F1 BB = map (redirect_uses ?old ?new) ?X"
    unfolding bi bb1 ..
  also have "take (Suc p) (map (redirect_uses ?old ?new) ?X)
        @ drop (Suc (Suc p)) (map (redirect_uses ?old ?new) ?X)
      = map (redirect_uses ?old ?new) (take (Suc p) ?X @ drop (Suc (Suc p)) ?X)"
    by (rule take_drop_map)
  also have "take (Suc p) ?X @ drop (Suc (Suc p)) ?X = (block_insts F BB)[p := ?T]"
    by (rule insert_then_erase_next [OF p])
  finally have c1: "block_insts ?F' BB
      = map (redirect_uses ?old ?new) ((block_insts F BB)[p := ?T])" .
  have c2: "\<forall>b. b \<noteq> BB \<longrightarrow> block_insts ?F' b = map (redirect_uses ?old ?new) (block_insts F b)"
    using ob by (simp add: erase_at_def block_insts_update_block_insts bi)
  have c3: "next_inst_id ?F' = Suc (next_inst_id F)"
    using ni by (simp add: erase_at_def next_inst_id_update_block_insts replaceAllUsesWith_def
        map_insts_def)
  have c4: "length (blocks ?F') = length (blocks F)"
    using l1 by (simp add: erase_at_def length_blocks_update_block_insts)
  show ?thesis
    apply (rule exI [of _ ?F'])
    apply (intro conjI)
    apply (rule s, rule c1, rule c2, rule c3, rule c4)
    done
qed


subsection \<open>The walk over the uses of an empty tuple\<close>

lemma collect_uses_loop_empty_tuple:
  "list_all (\<lambda>u. whole_value_use (CFn C) (TupleTy []) u \<or> scalarized_use (CFn C) (TupleTy []) u) us
   \<Longrightarrow> vty Pointer = TupleTy [] \<Longrightarrow>
   collect_uses_loop fuel False False (C, acc) Pointer BaseElt us
     = Some (Inr (C, acc @ map fst (filter (scalarized_use (CFn C) (TupleTy [])) us)))"
proof (induction us arbitrary: acc)
  case Nil
  then show ?case by (simp add: collect_uses_loop.simps)
next
  case (Cons u us)
  obtain User opno where u: "u = (User, opno)" by (cases u)
  have rest: "list_all (\<lambda>u. whole_value_use (CFn C) (TupleTy []) u
                \<or> scalarized_use (CFn C) (TupleTy []) u) us"
    using Cons.prems(1) by simp
  from Cons.prems(1) u have
    "whole_value_use (CFn C) (TupleTy []) (User, opno) \<or> scalarized_use (CFn C) (TupleTy []) (User, opno)"
    by simp
  then show ?case
  proof
    assume w: "whole_value_use (CFn C) (TupleTy []) (User, opno)"
    then obtain I Kind where
      g: "get_inst (CFn C) User = Some I"
      and c: "classify_use False False (TupleTy []) (inst I) opno = Inr (Record_Element_Uses Kind)"
      by (auto simp: whole_value_use_def split: option.splits sum.splits use_action.splits)
    have ns: "\<not> scalarized_use (CFn C) (TupleTy []) (User, opno)"
      using g c by (simp add: scalarized_use_def)
    have r: "record_use False False (C, acc) BaseElt (TupleTy []) User (Record_Element_Uses Kind)
        = Inr (C, acc)"
      by (simp add: record_use_def addElementUses_empty_tuple)
    have t: "recursive_target False False (CFn C) I BaseElt (Record_Element_Uses Kind) = Inr None"
      by (simp add: recursive_target_def)
    show ?thesis
      unfolding u
      using Cons.IH [OF rest Cons.prems(2), of acc] Cons.prems(2) g c r t ns
      by (simp add: collect_uses_loop.simps)
  next
    assume s: "scalarized_use (CFn C) (TupleTy []) (User, opno)"
    then obtain I where
      g: "get_inst (CFn C) User = Some I"
      and c: "classify_use False False (TupleTy []) (inst I) opno = Inr To_Scalarize"
      by (auto simp: scalarized_use_def split: option.splits)
    have r: "record_use False False (C, acc) BaseElt (TupleTy []) User To_Scalarize
        = Inr (C, acc @ [User])"
      by (simp add: record_use_def)
    have t: "recursive_target False False (CFn C) I BaseElt To_Scalarize = Inr None"
      by (simp add: recursive_target_def)
    show ?thesis
      unfolding u
      using Cons.IH [OF rest Cons.prems(2), of "acc @ [User]"] Cons.prems(2) g c r t s
      by (simp add: collect_uses_loop.simps)
  qed
qed

lemma getScalarizedElementAddresses_empty_tuple:
  assumes "find_inst F (vdef Pointer) = Some (BB, p)" and "vty Pointer = TupleTy []"
  shows "getScalarizedElementAddresses F Pointer = Inr (F, [])"
  using assms by (simp add: getScalarizedElementAddresses_def Let_def)

lemma scalarize_all_empty_tuple:
  assumes "find_inst F (vdef Pointer) = Some (BB, p)" and "vty Pointer = TupleTy []"
  shows "scalarize_all F Pointer U =
     (case scalarize_users F [] U of Inl e \<Rightarrow> Inl e | Inr F2 \<Rightarrow> Inr (F2, []))"
  by (simp add: scalarize_all_def getScalarizedElementAddresses_empty_tuple [OF assms])

lemma collectUses_empty_tuple:
  assumes f: "0 < fuel"
    and u: "list_all (\<lambda>u. whole_value_use (CFn C) (TupleTy []) u
                \<or> scalarized_use (CFn C) (TupleTy []) u) (getUses (CFn C) Pointer)"
    and d: "find_inst (CFn C) (vdef Pointer) = Some (BB, p)"
    and t: "vty Pointer = TupleTy []"
  shows "collectUses fuel False False C Pointer BaseElt =
     (case scalarize_users (CFn C) [] (scalarized_users (CFn C) Pointer) of
        Inl e \<Rightarrow> Some (Inl e)
      | Inr F' \<Rightarrow> Some (Inr (C\<lparr>CFn := F'\<rparr>)))"
proof -
  from f obtain n where n: "fuel = Suc n" by (cases fuel) auto
  let ?U = "scalarized_users (CFn C) Pointer"
  have l: "collect_uses_loop n False False (C, []) Pointer BaseElt (getUses (CFn C) Pointer)
      = Some (Inr (C, ?U))"
    using collect_uses_loop_empty_tuple [OF u t, of n "[]" BaseElt]
    by (simp add: scalarized_users_def t)
  show ?thesis
  proof (cases "?U = []")
    case True
    then show ?thesis unfolding n by (simp add: collectUses.simps l)
  next
    case False
    show ?thesis
    proof (cases "scalarize_users (CFn C) [] ?U")
      case (Inl e)
      then show ?thesis
        unfolding n using False
        by (simp add: collectUses.simps l scalarize_all_empty_tuple [OF d t])
    next
      case (Inr F2)
      then show ?thesis
        unfolding n using False
        by (simp add: collectUses.simps l scalarize_all_empty_tuple [OF d t]
            collect_element_addrs.simps)
    qed
  qed
qed

lemma processAllocBox_empty_tuple_scalarizes:
  assumes g: "get_inst F ABI = Some I" and t: "inst_ty I = TupleTy []"
    and f: "0 < fuel"
    and u: "list_all (\<lambda>u. whole_value_use F (TupleTy []) u \<or> scalarized_use F (TupleTy []) u)
              (getUses F (SILValue ABI 1 (TupleTy [])))"
  shows "processAllocBox fuel TL (F, D) ABI =
     (case scalarize_users F [] (scalarized_users F (SILValue ABI 1 (TupleTy []))) of
        Inl e \<Rightarrow> Some (Inl e)
      | Inr F' \<Rightarrow> Some (Inr (F', D)))"
proof -
  from g obtain BB p where d: "find_inst F ABI = Some (BB, p)"
    by (cases "find_inst F ABI") (auto simp: get_inst_def)
  have c: "collectUses fuel False False \<lparr>CFn = F, CUses = []\<rparr> (SILValue ABI 1 (TupleTy [])) 0 =
     (case scalarize_users F [] (scalarized_users F (SILValue ABI 1 (TupleTy []))) of
        Inl e \<Rightarrow> Some (Inl e)
      | Inr F' \<Rightarrow> Some (Inr (\<lparr>CFn = F, CUses = []\<rparr>\<lparr>CFn := F'\<rparr>)))"
    using collectUses_empty_tuple [of fuel "\<lparr>CFn = F, CUses = []\<rparr>"
        "SILValue ABI 1 (TupleTy [])" BB p 0] f u d
    by simp
  show ?thesis
    unfolding processAllocBox_def process_memory_empty_tuple [OF g t] c
    by (cases "scalarize_users F [] (scalarized_users F (SILValue ABI 1 (TupleTy [])))") simp_all
qed

text \<open>The step of the driver at a box that \<open>processAllocBox\<close> leaves as it is.\<close>

lemma check_block_alloc_box_unchanged:
  assumes d: "find_inst F ABI = Some (BB, p)"
    and a: "inst (block_insts F BB ! p) = AllocBox"
    and r: "processAllocBox fuel TL (F, D) ABI = Some (Inr (F, D))"
  shows "check_block (Suc steps) fuel TL (F, D) BB p =
     (if inst_use_empty F (block_insts F BB ! p)
      then check_block steps fuel TL (erase_at F BB p, D) BB p
      else check_block steps fuel TL (F, D) BB (Suc p))"
proof -
  have p: "p < length (block_insts F BB)" and i: "inst_id (block_insts F BB ! p) = ABI"
    using find_inst_Some [OF d] by simp_all
  note ip = find_inst_inst_pos [OF d]
  show ?thesis using p i a r ip by (simp add: Let_def)
qed

text \<open>
  Claim C10, as the code has it. For a box or a stack allocation of the empty tuple the
  array of the uses has no entry: no element is checked and nothing is diagnosed,
  however the address is used. The function that comes out is the one the collector of
  the uses leaves, and the collector still scalarizes. When the address is used by
  loads, by stores and assigns to it, and by uses of the whole value that are not
  scalarized (a \<open>copy_addr\<close>, an \<open>initialize_var\<close>, an argument of an \<open>apply\<close>, an escape),
  the function that comes out is the one in which the loads, stores and assigns are
  scalarized one after the other, in the order of the uses, with no element address.
  Scalarizing a load with no element address puts an empty tuple in its place, with a
  new identity, and turns the uses of the load into uses of the tuple; scalarizing a
  store or an assign of a value of the empty tuple erases it. With no load, store or
  assign among the uses, \<open>processAllocBox\<close> leaves the function as it is; the driver then
  goes on behind the box, and erases the box when nothing uses it.
\<close>

theorem empty_tuple_allocation_is_not_checked:
  assumes "get_inst F ABI = Some I" and "inst_ty I = TupleTy []"
  shows "getTupleElementCount (inst_ty I) = 0
     \<and> (\<forall>F' D'. processAllocBox fuel TL (F, D) ABI = Some (Inr (F', D')) \<longrightarrow>
          D' = D
          \<and> (\<exists>C. collectUses fuel False False \<lparr>CFn = F, CUses = []\<rparr>
                    (SILValue ABI 1 (TupleTy [])) 0 = Some (Inr C)
                 \<and> CUses C = [] \<and> F' = CFn C))
     \<and> processAllocStack fuel TL (F, D) ABI = processAllocBox fuel TL (F, D) ABI
     \<and> (0 < fuel \<and> list_all (\<lambda>u. whole_value_use F (TupleTy []) u
                                  \<or> scalarized_use F (TupleTy []) u)
                       (getUses F (SILValue ABI 1 (TupleTy []))) \<longrightarrow>
          processAllocBox fuel TL (F, D) ABI =
            (case scalarize_users F [] (scalarized_users F (SILValue ABI 1 (TupleTy []))) of
               Inl e \<Rightarrow> Some (Inl e)
             | Inr F' \<Rightarrow> Some (Inr (F', D))))
     \<and> (find_inst G User = Some (BB, p) \<and> inst (block_insts G BB ! p) = Load a \<longrightarrow>
          (\<exists>G'. scalarize_user G [] User = Inr G'
             \<and> block_insts G' BB =
                 map (redirect_uses (SILValue User 0 (inst_ty (block_insts G BB ! p)))
                        (SILValue (next_inst_id G) 0 (inst_ty (block_insts G BB ! p))))
                   ((block_insts G BB)[p := empty_aggregate (next_inst_id G) (block_insts G BB ! p)])
             \<and> (\<forall>b. b \<noteq> BB \<longrightarrow> block_insts G' b =
                 map (redirect_uses (SILValue User 0 (inst_ty (block_insts G BB ! p)))
                        (SILValue (next_inst_id G) 0 (inst_ty (block_insts G BB ! p))))
                   (block_insts G b))
             \<and> next_inst_id G' = Suc (next_inst_id G)
             \<and> length (blocks G') = length (blocks G)))
     \<and> (find_inst G User = Some (BB, p)
          \<and> (inst (block_insts G BB ! p) = Store v a \<or> inst (block_insts G BB ! p) = Assign v a)
          \<and> vty v = TupleTy [] \<longrightarrow>
          scalarize_user G [] User = Inr (erase_at G BB p))
     \<and> (0 < fuel \<and> list_all (whole_value_use F (TupleTy []))
                       (getUses F (SILValue ABI 1 (TupleTy []))) \<longrightarrow>
          processAllocBox fuel TL (F, D) ABI = Some (Inr (F, D)))
     \<and> (0 < fuel \<and> list_all (whole_value_use F (TupleTy []))
                       (getUses F (SILValue ABI 1 (TupleTy [])))
          \<and> find_inst F ABI = Some (BBa, q) \<and> inst I = AllocBox \<longrightarrow>
          check_block (Suc steps) fuel TL (F, D) BBa q =
            (if inst_use_empty F I
             then check_block steps fuel TL (erase_at F BBa q, D) BBa q
             else check_block steps fuel TL (F, D) BBa (Suc q)))"
proof -
  have c1: "getTupleElementCount (inst_ty I) = 0" using assms(2) by simp
  have c2: "\<forall>F' D'. processAllocBox fuel TL (F, D) ABI = Some (Inr (F', D')) \<longrightarrow>
          D' = D
          \<and> (\<exists>C. collectUses fuel False False \<lparr>CFn = F, CUses = []\<rparr>
                    (SILValue ABI 1 (TupleTy [])) 0 = Some (Inr C)
                 \<and> CUses C = [] \<and> F' = CFn C)"
  proof (intro allI impI)
    fix F' D'
    assume a: "processAllocBox fuel TL (F, D) ABI = Some (Inr (F', D'))"
    then obtain C where
      c: "collectUses fuel False False \<lparr>CFn = F, CUses = []\<rparr>
            (SILValue ABI 1 (TupleTy [])) 0 = Some (Inr C)"
      and e: "F' = CFn C" "D' = D"
      unfolding processAllocBox_def process_memory_empty_tuple [OF assms]
      by (auto split: option.splits sum.splits)
    have "length (CUses C) = length (CUses \<lparr>CFn = F, CUses = []\<rparr>)"
      using collectUses_length(1) c by blast
    then have "CUses C = []" by simp
    with c e show "D' = D
          \<and> (\<exists>C. collectUses fuel False False \<lparr>CFn = F, CUses = []\<rparr>
                    (SILValue ABI 1 (TupleTy [])) 0 = Some (Inr C)
                 \<and> CUses C = [] \<and> F' = CFn C)"
      by auto
  qed
  have c3: "processAllocStack fuel TL (F, D) ABI = processAllocBox fuel TL (F, D) ABI"
    unfolding processAllocStack_def processAllocBox_def process_memory_empty_tuple [OF assms]
    by (rule refl)
  have c4: "0 < fuel \<and> list_all (\<lambda>u. whole_value_use F (TupleTy []) u
                                  \<or> scalarized_use F (TupleTy []) u)
                       (getUses F (SILValue ABI 1 (TupleTy []))) \<longrightarrow>
          processAllocBox fuel TL (F, D) ABI =
            (case scalarize_users F [] (scalarized_users F (SILValue ABI 1 (TupleTy []))) of
               Inl e \<Rightarrow> Some (Inl e)
             | Inr F' \<Rightarrow> Some (Inr (F', D)))"
    using processAllocBox_empty_tuple_scalarizes [OF assms] by blast
  have c5: "find_inst G User = Some (BB, p) \<and> inst (block_insts G BB ! p) = Load a \<longrightarrow>
          (\<exists>G'. scalarize_user G [] User = Inr G'
             \<and> block_insts G' BB =
                 map (redirect_uses (SILValue User 0 (inst_ty (block_insts G BB ! p)))
                        (SILValue (next_inst_id G) 0 (inst_ty (block_insts G BB ! p))))
                   ((block_insts G BB)[p := empty_aggregate (next_inst_id G) (block_insts G BB ! p)])
             \<and> (\<forall>b. b \<noteq> BB \<longrightarrow> block_insts G' b =
                 map (redirect_uses (SILValue User 0 (inst_ty (block_insts G BB ! p)))
                        (SILValue (next_inst_id G) 0 (inst_ty (block_insts G BB ! p))))
                   (block_insts G b))
             \<and> next_inst_id G' = Suc (next_inst_id G)
             \<and> length (blocks G') = length (blocks G))"
    using scalarize_user_load [of G User BB p a] by blast
  have c6: "find_inst G User = Some (BB, p)
          \<and> (inst (block_insts G BB ! p) = Store v a \<or> inst (block_insts G BB ! p) = Assign v a)
          \<and> vty v = TupleTy [] \<longrightarrow>
          scalarize_user G [] User = Inr (erase_at G BB p)"
    using scalarize_user_store [of G User BB p v a] by blast
  have w: "0 < fuel \<and> list_all (whole_value_use F (TupleTy []))
                       (getUses F (SILValue ABI 1 (TupleTy []))) \<Longrightarrow>
          processAllocBox fuel TL (F, D) ABI = Some (Inr (F, D))"
  proof -
    assume "0 < fuel \<and> list_all (whole_value_use F (TupleTy []))
                       (getUses F (SILValue ABI 1 (TupleTy [])))"
    then have "collectUses fuel False False \<lparr>CFn = F, CUses = []\<rparr>
          (SILValue ABI 1 (TupleTy [])) 0 = Some (Inr \<lparr>CFn = F, CUses = []\<rparr>)"
      using collectUses_whole_value [of fuel "\<lparr>CFn = F, CUses = []\<rparr>"
          "SILValue ABI 1 (TupleTy [])" 0]
      by simp
    then show "processAllocBox fuel TL (F, D) ABI = Some (Inr (F, D))"
      unfolding processAllocBox_def process_memory_empty_tuple [OF assms] by simp
  qed
  then have c7: "0 < fuel \<and> list_all (whole_value_use F (TupleTy []))
                       (getUses F (SILValue ABI 1 (TupleTy []))) \<longrightarrow>
          processAllocBox fuel TL (F, D) ABI = Some (Inr (F, D))"
    by blast
  have c8: "0 < fuel \<and> list_all (whole_value_use F (TupleTy []))
                       (getUses F (SILValue ABI 1 (TupleTy [])))
          \<and> find_inst F ABI = Some (BBa, q) \<and> inst I = AllocBox \<longrightarrow>
          check_block (Suc steps) fuel TL (F, D) BBa q =
            (if inst_use_empty F I
             then check_block steps fuel TL (erase_at F BBa q, D) BBa q
             else check_block steps fuel TL (F, D) BBa (Suc q))"
  proof (intro impI)
    assume h: "0 < fuel \<and> list_all (whole_value_use F (TupleTy []))
                       (getUses F (SILValue ABI 1 (TupleTy [])))
          \<and> find_inst F ABI = Some (BBa, q) \<and> inst I = AllocBox"
    then have d: "find_inst F ABI = Some (BBa, q)" and a: "inst I = AllocBox" by simp_all
    have r: "processAllocBox fuel TL (F, D) ABI = Some (Inr (F, D))"
      using w h by blast
    have e: "I = block_insts F BBa ! q"
      using assms(1) get_inst_find_inst [OF d] by simp
    show "check_block (Suc steps) fuel TL (F, D) BBa q =
            (if inst_use_empty F I
             then check_block steps fuel TL (erase_at F BBa q, D) BBa q
             else check_block steps fuel TL (F, D) BBa (Suc q))"
      unfolding e
      by (rule check_block_alloc_box_unchanged [OF d a [unfolded e] r])
  qed
  show ?thesis
    apply (intro conjI)
    apply (rule c1, rule c2, rule c3, rule c4, rule c5, rule c6, rule c7, rule c8)
    done
qed

theorem empty_tuple_allocation_is_not_checked_witness:
  "get_inst ex_unit_store_load 10 = Some (block_insts ex_unit_store_load 0 ! 0)
   \<and> inst_ty (block_insts ex_unit_store_load 0 ! 0) = TupleTy []
   \<and> 0 < (5 :: nat)
   \<and> list_all (\<lambda>u. whole_value_use ex_unit_store_load (TupleTy []) u
                    \<or> scalarized_use ex_unit_store_load (TupleTy []) u)
        (getUses ex_unit_store_load (SILValue 10 1 (TupleTy [])))
   \<and> scalarized_users ex_unit_store_load (SILValue 10 1 (TupleTy [])) = [11, 12]
   \<and> processAllocBox 5 ex_TL (ex_unit_store_load, []) 10
       = Some (Inr (ex_unit_store_load_scalarized, []))
   \<and> processAllocStack 5 ex_TL (ex_unit_store_load, []) 10
       = Some (Inr (ex_unit_store_load_scalarized, []))
   \<and> (\<exists>C. collectUses 5 False False \<lparr>CFn = ex_unit_store_load, CUses = []\<rparr>
             (SILValue 10 1 (TupleTy [])) 0 = Some (Inr C)
          \<and> CUses C = [] \<and> ex_unit_store_load_scalarized = CFn C)
   \<and> find_inst ex_unit_store_load 12 = Some (0, 2)
   \<and> inst (block_insts ex_unit_store_load 0 ! 2) = Load (SILValue 10 1 (TupleTy []))
   \<and> (\<exists>G'. scalarize_user ex_unit_store_load [] 12 = Inr G'
          \<and> block_insts G' 0 =
              map (redirect_uses (SILValue 12 0 (TupleTy [])) (SILValue 14 0 (TupleTy [])))
                ((block_insts ex_unit_store_load 0)
                   [2 := empty_aggregate 14 (block_insts ex_unit_store_load 0 ! 2)])
          \<and> next_inst_id G' = 15)
   \<and> find_inst ex_unit_store_load 11 = Some (0, 1)
   \<and> inst (block_insts ex_unit_store_load 0 ! 1)
       = Store (SILValue 7 0 (TupleTy [])) (SILValue 10 1 (TupleTy []))
   \<and> scalarize_user ex_unit_store_load [] 11 = Inr (erase_at ex_unit_store_load 0 1)
   \<and> get_inst ex_unit_copy 10 = Some (block_insts ex_unit_copy 0 ! 0)
   \<and> inst_ty (block_insts ex_unit_copy 0 ! 0) = TupleTy []
   \<and> list_all (whole_value_use ex_unit_copy (TupleTy []))
        (getUses ex_unit_copy (SILValue 10 1 (TupleTy [])))
   \<and> processAllocBox 5 ex_TL (ex_unit_copy, []) 10 = Some (Inr (ex_unit_copy, []))
   \<and> find_inst ex_unit_copy 10 = Some (0, 0)
   \<and> inst (block_insts ex_unit_copy 0 ! 0) = AllocBox
   \<and> \<not> inst_use_empty ex_unit_copy (block_insts ex_unit_copy 0 ! 0)
   \<and> check_block (Suc 3) 5 ex_TL (ex_unit_copy, []) 0 0
       = check_block 3 5 ex_TL (ex_unit_copy, []) 0 (Suc 0)"
proof -
  let ?F = ex_unit_store_load
  let ?P = "SILValue 10 1 (TupleTy [])"
  have g: "get_inst ?F 10 = Some (block_insts ?F 0 ! 0)"
    by code_simp
  have t: "inst_ty (block_insts ?F 0 ! 0) = TupleTy []"
    by code_simp
  have f: "0 < (5 :: nat)" by simp
  have u: "list_all (\<lambda>u. whole_value_use ?F (TupleTy []) u \<or> scalarized_use ?F (TupleTy []) u)
        (getUses ?F ?P)"
    by code_simp
  have su: "scalarized_users ?F ?P = [11, 12]"
    by code_simp
  have sc: "scalarize_users ?F [] [11, 12] = Inr ex_unit_store_load_scalarized"
    by code_simp
  note e = empty_tuple_allocation_is_not_checked [OF g t,
      where fuel = 5 and TL = ex_TL and D = "[]" and G = ?F and User = 12 and BB = 0 and p = 2
        and a = ?P]
  have "processAllocBox 5 ex_TL (?F, []) 10 =
      (case scalarize_users ?F [] (scalarized_users ?F ?P) of
         Inl e \<Rightarrow> Some (Inl e)
       | Inr F' \<Rightarrow> Some (Inr (F', [])))"
    using e [THEN conjunct2, THEN conjunct2, THEN conjunct2, THEN conjunct1] f u by blast
  then have b: "processAllocBox 5 ex_TL (?F, []) 10
      = Some (Inr (ex_unit_store_load_scalarized, []))"
    unfolding su sc by simp
  have s: "processAllocStack 5 ex_TL (?F, []) 10 = Some (Inr (ex_unit_store_load_scalarized, []))"
    using e [THEN conjunct2, THEN conjunct2, THEN conjunct1] b by (simp only:)
  have c: "\<exists>C. collectUses 5 False False \<lparr>CFn = ?F, CUses = []\<rparr> ?P 0 = Some (Inr C)
          \<and> CUses C = [] \<and> ex_unit_store_load_scalarized = CFn C"
    using e [THEN conjunct2, THEN conjunct1] b by blast
  have fl: "find_inst ?F 12 = Some (0, 2)"
    and il: "inst (block_insts ?F 0 ! 2) = Load ?P"
    by code_simp+
  have ty: "inst_ty (block_insts ?F 0 ! 2) = TupleTy []" and ni: "next_inst_id ?F = 14"
    by code_simp+
  have "\<exists>G'. scalarize_user ?F [] 12 = Inr G'
          \<and> block_insts G' 0 =
              map (redirect_uses (SILValue 12 0 (inst_ty (block_insts ?F 0 ! 2)))
                     (SILValue (next_inst_id ?F) 0 (inst_ty (block_insts ?F 0 ! 2))))
                ((block_insts ?F 0)[2 := empty_aggregate (next_inst_id ?F) (block_insts ?F 0 ! 2)])
          \<and> (\<forall>b. b \<noteq> 0 \<longrightarrow> block_insts G' b =
              map (redirect_uses (SILValue 12 0 (inst_ty (block_insts ?F 0 ! 2)))
                     (SILValue (next_inst_id ?F) 0 (inst_ty (block_insts ?F 0 ! 2))))
                (block_insts ?F b))
          \<and> next_inst_id G' = Suc (next_inst_id ?F)
          \<and> length (blocks G') = length (blocks ?F)"
    using e [THEN conjunct2, THEN conjunct2, THEN conjunct2, THEN conjunct2, THEN conjunct1]
      fl il
    by blast
  then obtain G' where
    l1: "scalarize_user ?F [] 12 = Inr G'"
    and l2: "block_insts G' 0 =
              map (redirect_uses (SILValue 12 0 (inst_ty (block_insts ?F 0 ! 2)))
                     (SILValue (next_inst_id ?F) 0 (inst_ty (block_insts ?F 0 ! 2))))
                ((block_insts ?F 0)[2 := empty_aggregate (next_inst_id ?F) (block_insts ?F 0 ! 2)])"
    and l3: "next_inst_id G' = Suc (next_inst_id ?F)"
    by blast
  have l3': "next_inst_id G' = 15" using l3 unfolding ni by simp
  have ld: "\<exists>G'. scalarize_user ?F [] 12 = Inr G'
          \<and> block_insts G' 0 =
              map (redirect_uses (SILValue 12 0 (TupleTy [])) (SILValue 14 0 (TupleTy [])))
                ((block_insts ?F 0)[2 := empty_aggregate 14 (block_insts ?F 0 ! 2)])
          \<and> next_inst_id G' = 15"
    apply (rule exI [of _ G'])
    apply (intro conjI)
    apply (rule l1, rule l2 [unfolded ty ni], rule l3')
    done
  note e1 = empty_tuple_allocation_is_not_checked [OF g t,
      where G = ?F and User = 11 and BB = 0 and p = 1 and v = "SILValue 7 0 (TupleTy [])"
        and a = ?P]
  have fs: "find_inst ?F 11 = Some (0, 1)"
    and ist: "inst (block_insts ?F 0 ! 1) = Store (SILValue 7 0 (TupleTy [])) ?P"
    by code_simp+
  have vt: "vty (SILValue 7 0 (TupleTy [])) = TupleTy []" by simp
  have st: "scalarize_user ?F [] 11 = Inr (erase_at ?F 0 1)"
    using e1 [THEN conjunct2, THEN conjunct2, THEN conjunct2, THEN conjunct2, THEN conjunct2,
        THEN conjunct1] fs ist vt
    by blast
  have g': "get_inst ex_unit_copy 10 = Some (block_insts ex_unit_copy 0 ! 0)"
    by code_simp
  have t': "inst_ty (block_insts ex_unit_copy 0 ! 0) = TupleTy []"
    by code_simp
  have w: "list_all (whole_value_use ex_unit_copy (TupleTy [])) (getUses ex_unit_copy ?P)"
    by code_simp
  note e2 = empty_tuple_allocation_is_not_checked [OF g' t',
      where fuel = 5 and TL = ex_TL and D = "[]" and BBa = 0 and q = 0 and steps = 3]
  have b': "processAllocBox 5 ex_TL (ex_unit_copy, []) 10 = Some (Inr (ex_unit_copy, []))"
    using e2 [THEN conjunct2, THEN conjunct2, THEN conjunct2, THEN conjunct2, THEN conjunct2,
        THEN conjunct2, THEN conjunct1] f w
    by blast
  have fc: "find_inst ex_unit_copy 10 = Some (0, 0)"
    and ic: "inst (block_insts ex_unit_copy 0 ! 0) = AllocBox"
    and ne: "\<not> inst_use_empty ex_unit_copy (block_insts ex_unit_copy 0 ! 0)"
    by code_simp+
  have "check_block (Suc 3) 5 ex_TL (ex_unit_copy, []) 0 0 =
      (if inst_use_empty ex_unit_copy (block_insts ex_unit_copy 0 ! 0)
       then check_block 3 5 ex_TL (erase_at ex_unit_copy 0 0, []) 0 0
       else check_block 3 5 ex_TL (ex_unit_copy, []) 0 (Suc 0))"
    using e2 [THEN conjunct2, THEN conjunct2, THEN conjunct2, THEN conjunct2, THEN conjunct2,
        THEN conjunct2, THEN conjunct2] f w fc ic
    by blast
  then have cb: "check_block (Suc 3) 5 ex_TL (ex_unit_copy, []) 0 0
       = check_block 3 5 ex_TL (ex_unit_copy, []) 0 (Suc 0)"
    using ne by (simp only: if_False)
  show ?thesis
    apply (intro conjI)
    apply (rule g, rule t, rule f, rule u, rule su, rule b, rule s, rule c, rule fl, rule il,
           rule ld, rule fs, rule ist, rule st, rule g', rule t', rule w, rule b', rule fc, rule ic,
           rule ne, rule cb)
    done
qed

text \<open>
  A load from a box of the empty tuple is rewritten: \<open>processAllocBox\<close> puts an empty
  \<open>tuple\<close> instruction (13) in the place of the load (11), and the return uses it.
\<close>

theorem empty_tuple_load_is_rewritten_counterexample:
  "get_inst ex_unit 10 = Some \<lparr>inst_id = 10, inst = AllocBox, inst_ty = TupleTy [],
                               loc = ex_loc 10\<rparr>
   \<and> processAllocBox 5 ex_TL (ex_unit, []) 10 = Some (Inr (ex_unit_scalarized, []))
   \<and> ex_unit_scalarized \<noteq> ex_unit"
proof -
  have "get_inst ex_unit 10 = Some \<lparr>inst_id = 10, inst = AllocBox, inst_ty = TupleTy [],
                               loc = ex_loc 10\<rparr>"
    by code_simp
  moreover have "processAllocBox 5 ex_TL (ex_unit, []) 10 = Some (Inr (ex_unit_scalarized, []))"
    by code_simp
  moreover have "ex_unit_scalarized \<noteq> ex_unit"
    by code_simp
  ultimately show ?thesis by blast
qed

end
